theory Spec2Isabelle
  imports Complex_Main "HOL-Library.Log_Nat" "HOL-Library.Sublist"
begin

section \<open>JavaScript values used by the optimizer\<close>

text \<open>
  A JavaScript \<^verbatim>\<open>number\<close> is a double. It is modelled by its exact value, a rational,
  or by one of the three special values that the arithmetic of \<^verbatim>\<open>optimizer.ts\<close> can
  produce (a division by zero gives an infinity or NaN). Negative zero is identified with
  zero.
\<close>

datatype jsnum = Num rat | NaN | PosInf | NegInf

text \<open>\<^verbatim>\<open>Math.round\<close> on a finite value: the nearest integer, a tie going up. On a
  double this is exact.\<close>

definition round_half_up :: "rat \<Rightarrow> int" where
  "round_half_up x = \<lfloor>x + 1 / 2\<rfloor>"

fun math_round :: "jsnum \<Rightarrow> jsnum" where
  "math_round (Num x) = Num (of_int (round_half_up x))"
| "math_round NaN = NaN"
| "math_round PosInf = PosInf"
| "math_round NegInf = NegInf"

text \<open>\<^verbatim>\<open>c - x\<close> for a finite constant \<open>c\<close>.\<close>

fun js_sub_from :: "rat \<Rightarrow> jsnum \<Rightarrow> jsnum" where
  "js_sub_from c (Num x) = Num (c - x)"
| "js_sub_from c NaN = NaN"
| "js_sub_from c PosInf = NegInf"
| "js_sub_from c NegInf = PosInf"

text \<open>
  \<^verbatim>\<open>x / c\<close> for a finite positive constant \<open>c\<close>, as an exact quotient. It serves the PNG
  compression level only, where the exact quotient and the double round to the same
  integer for every whole-number quality (\<open>rounding_is_stable\<close> below).
\<close>

fun js_div_by :: "jsnum \<Rightarrow> rat \<Rightarrow> jsnum" where
  "js_div_by (Num x) c = Num (x / c)"
| "js_div_by NaN c = NaN"
| "js_div_by PosInf c = PosInf"
| "js_div_by NegInf c = NegInf"

text \<open>
  Binary64 arithmetic. Each operation of IEEE 754 returns the double nearest to the
  exact result, a tie going to the even significand: \<open>fl\<close> is that rounding, on a value
  with binary exponent \<open>e\<close> to a multiple of \<open>2 powi (e - 52)\<close>. Overflow and subnormal
  numbers are left out: the quotients and percentages of file sizes stay far inside the
  normal range. File sizes are taken to be below \<open>2 ^ 53\<close>, where every whole number is
  a double.
\<close>

definition round_half_even :: "rat \<Rightarrow> int" where
  "round_half_even x =
     (let f = \<lfloor>x\<rfloor>; r = x - of_int f
      in if r < 1 / 2 then f else if 1 / 2 < r then f + 1 else if even f then f else f + 1)"

text \<open>The \<open>e\<close> with \<open>2 powi e \<le> \<bar>x\<bar> < 2 powi (e + 1)\<close>, from the bit lengths of numerator
  and denominator.\<close>

definition binary64_exponent :: "rat \<Rightarrow> int" where
  "binary64_exponent x =
     (let (a, b) = quotient_of \<bar>x\<bar>; e0 = bitlen a - bitlen b
      in if 2 powi e0 \<le> \<bar>x\<bar> then e0 else e0 - 1)"

definition fl :: "rat \<Rightarrow> rat" where
  "fl x =
     (if x = 0 then 0
      else let q = 2 powi (binary64_exponent x - 52)
           in of_int (round_half_even (x / q)) * q)"

text \<open>\<^verbatim>\<open>x * c\<close> and \<^verbatim>\<open>x / c\<close> in doubles, for a finite positive constant \<open>c\<close>.\<close>

fun double_times :: "jsnum \<Rightarrow> rat \<Rightarrow> jsnum" where
  "double_times (Num x) c = Num (fl (x * c))"
| "double_times NaN c = NaN"
| "double_times PosInf c = PosInf"
| "double_times NegInf c = NegInf"

fun double_over :: "jsnum \<Rightarrow> rat \<Rightarrow> jsnum" where
  "double_over (Num x) c = Num (fl (x / c))"
| "double_over NaN c = NaN"
| "double_over PosInf c = PosInf"
| "double_over NegInf c = NegInf"

text \<open>\<^verbatim>\<open>a / b\<close> in doubles, for two finite values: the division by zero is where the
  special values come from.\<close>

definition double_divide :: "rat \<Rightarrow> rat \<Rightarrow> jsnum" where
  "double_divide a b =
     (if b \<noteq> 0 then Num (fl (a / b))
      else if a = 0 then NaN
      else if 0 < a then PosInf
      else NegInf)"

text \<open>\<^verbatim>\<open>Math.max(c, x)\<close> and \<^verbatim>\<open>Math.min(c, x)\<close> for a finite constant \<open>c\<close>; NaN is
  contagious.\<close>

fun math_max :: "rat \<Rightarrow> jsnum \<Rightarrow> jsnum" where
  "math_max c (Num x) = Num (max c x)"
| "math_max c NaN = NaN"
| "math_max c PosInf = PosInf"
| "math_max c NegInf = Num c"

fun math_min :: "rat \<Rightarrow> jsnum \<Rightarrow> jsnum" where
  "math_min c (Num x) = Num (min c x)"
| "math_min c NaN = NaN"
| "math_min c PosInf = Num c"
| "math_min c NegInf = NegInf"

text \<open>
  A thrown value: an \<^verbatim>\<open>Error\<close> instance with its message, or anything else. The
  \<^verbatim>\<open>catch\<close> blocks of the program tell the two apart with \<^verbatim>\<open>instanceof Error\<close>.
\<close>

datatype js_error = JsError string | JsThrown

definition error_message :: "js_error \<Rightarrow> string" where
  "error_message e = (case e of JsError m \<Rightarrow> m | JsThrown \<Rightarrow> ''Erro desconhecido'')"

text \<open>\<^verbatim>\<open>String.prototype.toLowerCase\<close>, on the ASCII letters.\<close>

definition lower_char :: "char \<Rightarrow> char" where
  "lower_char c =
     (let n = (of_char c :: nat) in if 65 \<le> n \<and> n \<le> 90 then char_of (n + 32) else c)"

definition toLowerCase :: "string \<Rightarrow> string" where
  "toLowerCase s = map lower_char s"

section \<open>The \<^verbatim>\<open>path\<close> module (POSIX)\<close>

text \<open>
  The optimizer computes its output path with Node's \<^verbatim>\<open>path.dirname\<close>,
  \<^verbatim>\<open>path.basename\<close>, \<^verbatim>\<open>path.extname\<close> and \<^verbatim>\<open>path.join\<close>. They belong to the
  runtime, not to the repository; they are modelled here as Node documents them for
  POSIX paths, on strings of bytes.
\<close>

definition is_slash :: "char \<Rightarrow> bool" where
  "is_slash c = (c = CHR ''/'')"

text \<open>The last portion of a path, trailing separators ignored.\<close>

definition last_component :: "string \<Rightarrow> string" where
  "last_component p = rev (takeWhile (\<lambda>c. \<not> is_slash c) (dropWhile is_slash (rev p)))"

definition path_extname :: "string \<Rightarrow> string" where
  "path_extname p =
     (let base = last_component p;
          tail = takeWhile (\<lambda>c. c \<noteq> CHR ''.'') (rev base);
          startDot = length base - length tail - 1
      in if CHR ''.'' \<notin> set base \<or> startDot = 0 \<or> base = ''..'' then []
         else drop startDot base)"

definition path_basename :: "string \<Rightarrow> string \<Rightarrow> string" where
  "path_basename p sfx =
     (let base = last_component p
      in if sfx \<noteq> [] \<and> sfx = p then []
         else if sfx \<noteq> [] \<and> sfx \<noteq> base \<and> suffix sfx base
           then take (length base - length sfx) base
         else base)"

definition path_dirname :: "string \<Rightarrow> string" where
  "path_dirname p =
     (if p = [] then ''.''
      else
        let hasRoot = is_slash (hd p);
            rest = dropWhile (\<lambda>c. \<not> is_slash c) (dropWhile is_slash (rev (tl p)));
            end = length rest
        in if rest = [] then (if hasRoot then ''/'' else ''.'')
           else if hasRoot \<and> end = 1 then ''//''
           else take end p)"

fun split_slash :: "string \<Rightarrow> string \<Rightarrow> string list" where
  "split_slash acc [] = [rev acc]"
| "split_slash acc (c # cs) =
     (if is_slash c then rev acc # split_slash [] cs else split_slash (c # acc) cs)"

fun join_slash :: "string list \<Rightarrow> string" where
  "join_slash [] = []"
| "join_slash [s] = s"
| "join_slash (s # t # ss) = s @ ''/'' @ join_slash (t # ss)"

text \<open>
  Resolution of \<^verbatim>\<open>.\<close> and \<^verbatim>\<open>..\<close> segments; \<open>acc\<close> holds the segments kept so far,
  the last one first.
\<close>

fun normalize_segments :: "bool \<Rightarrow> string list \<Rightarrow> string list \<Rightarrow> string list" where
  "normalize_segments allowAboveRoot acc [] = rev acc"
| "normalize_segments allowAboveRoot acc (s # ss) =
     (if s = [] \<or> s = ''.'' then normalize_segments allowAboveRoot acc ss
      else if s = ''..'' then
        (case acc of
           a # acc' \<Rightarrow>
             if a \<noteq> ''..'' then normalize_segments allowAboveRoot acc' ss
             else if allowAboveRoot then normalize_segments allowAboveRoot (s # acc) ss
             else normalize_segments allowAboveRoot acc ss
         | [] \<Rightarrow>
             if allowAboveRoot then normalize_segments allowAboveRoot [s] ss
             else normalize_segments allowAboveRoot [] ss)
      else normalize_segments allowAboveRoot (s # acc) ss)"

definition path_normalize :: "string \<Rightarrow> string" where
  "path_normalize p =
     (if p = [] then ''.''
      else
        let isAbsolute = is_slash (hd p);
            trailingSeparator = is_slash (last p);
            q = join_slash (normalize_segments (\<not> isAbsolute) [] (split_slash [] p))
        in if q = [] then (if isAbsolute then ''/'' else if trailingSeparator then ''./'' else ''.'')
           else (if isAbsolute then ''/'' else []) @ q @ (if trailingSeparator then ''/'' else []))"

definition path_join :: "string list \<Rightarrow> string" where
  "path_join args =
     (let joined = join_slash (filter (\<lambda>a. a \<noteq> []) args)
      in if joined = [] then ''.'' else path_normalize joined)"

section \<open>The file system\<close>

text \<open>
  The part of the file system the program can observe: which paths exist, whether a path
  is a regular file or a directory, and the byte size \<^verbatim>\<open>stat\<close> reports. Paths are
  looked up through their normalised form, so that \<^verbatim>\<open>./a.png\<close> and \<^verbatim>\<open>a.png\<close> name
  the same file. Symbolic links, permissions and a changing working directory are not
  modelled.
\<close>

datatype fs_node = RegularFile nat | Directory nat

type_synonym world = "string \<Rightarrow> fs_node option"

definition fs_key :: "string \<Rightarrow> string" where
  "fs_key p =
     (let n = path_normalize p
      in if n = ''/'' then n else rev (dropWhile is_slash (rev n)))"

definition fs_lookup :: "world \<Rightarrow> string \<Rightarrow> fs_node option" where
  "fs_lookup w p = (if p = [] then None else w (fs_key p))"

definition node_size :: "fs_node \<Rightarrow> nat" where
  "node_size n = (case n of RegularFile s \<Rightarrow> s | Directory s \<Rightarrow> s)"

definition enoent :: "string \<Rightarrow> string \<Rightarrow> js_error" where
  "enoent syscall p = JsError (''ENOENT: no such file or directory, '' @ syscall @ '' '' @ p)"

text \<open>\<^verbatim>\<open>fs.access(p)\<close>: rejects when the path does not exist.\<close>

definition fs_access :: "world \<Rightarrow> string \<Rightarrow> js_error + unit" where
  "fs_access w p = (case fs_lookup w p of None \<Rightarrow> Inl (enoent ''access'' p) | Some n \<Rightarrow> Inr ())"

text \<open>\<^verbatim>\<open>(await fs.stat(p)).size\<close>.\<close>

definition fs_stat_size :: "world \<Rightarrow> string \<Rightarrow> js_error + nat" where
  "fs_stat_size w p =
     (case fs_lookup w p of None \<Rightarrow> Inl (enoent ''stat'' p) | Some n \<Rightarrow> Inr (node_size n))"

text \<open>\<^verbatim>\<open>fs.unlink(p)\<close>: removes a regular file; rejects on a missing path and on a
  directory.\<close>

definition fs_unlink :: "world \<Rightarrow> string \<Rightarrow> js_error + world" where
  "fs_unlink w p =
     (case fs_lookup w p of
        None \<Rightarrow> Inl (enoent ''unlink'' p)
      | Some (Directory s) \<Rightarrow>
          Inl (JsError (''EISDIR: illegal operation on a directory, unlink '' @ p))
      | Some (RegularFile s) \<Rightarrow> Inr (w(fs_key p := None)))"

text \<open>
  \<^verbatim>\<open>fs.mkdir(p, { recursive: true })\<close>: every missing directory on the way to \<open>p\<close> is
  created, an existing directory is left as it is, and a regular file in the way makes
  the call reject.
\<close>

definition new_directory_size :: nat where
  "new_directory_size = 4096"

definition directories_towards :: "string \<Rightarrow> string list" where
  "directories_towards k =
     map (\<lambda>i. take i k) (filter (\<lambda>i. is_slash (k ! i)) [1..<length k]) @ [k]"

fun mkdir_each :: "world \<Rightarrow> string list \<Rightarrow> js_error + world" where
  "mkdir_each w [] = Inr w"
| "mkdir_each w (d # ds) =
     (case w d of
        Some (RegularFile s) \<Rightarrow>
          Inl (JsError (''ENOTDIR: not a directory, mkdir '' @ d))
      | Some (Directory s) \<Rightarrow> mkdir_each w ds
      | None \<Rightarrow> mkdir_each (w(d \<mapsto> Directory new_directory_size)) ds)"

definition fs_mkdir_recursive :: "world \<Rightarrow> string \<Rightarrow> js_error + world" where
  "fs_mkdir_recursive w p =
     (if p = [] then Inl (enoent ''mkdir'' p)
      else mkdir_each w (directories_towards (fs_key p)))"


definition path_exists :: "world \<Rightarrow> string \<Rightarrow> bool" where
  "path_exists w p = (fs_lookup w p \<noteq> None)"

section \<open>The codec\<close>

text \<open>
  The image library (\<^verbatim>\<open>sharp\<close>) is outside the repository. What the optimizer asks of
  it is recorded as an \<open>encoder\<close>; what it answers is a parameter of the model: given
  the file system, the input path, the encoder and the output path, a codec either throws
  or reports the number of bytes it encoded. \<open>sharp_toFile\<close> then writes the output
  file, all of it or nothing.
\<close>

datatype encoder =
    WebpEncoder jsnum nat
  | PngEncoder jsnum
  | JpegEncoder jsnum bool
  | ByOutputExtension

type_synonym codec = "world \<Rightarrow> string \<Rightarrow> encoder \<Rightarrow> string \<Rightarrow> js_error + nat"

definition sharp_toFile :: "codec \<Rightarrow> world \<Rightarrow> string \<Rightarrow> encoder \<Rightarrow> string \<Rightarrow> js_error + world" where
  "sharp_toFile codec w inputPath enc outputPath =
     (case codec w inputPath enc outputPath of
        Inl e \<Rightarrow> Inl e
      | Inr n \<Rightarrow> Inr (w(fs_key outputPath \<mapsto> RegularFile n)))"

section \<open>\<^verbatim>\<open>src/optimizer.ts\<close>\<close>

record OptimizeOptions =
  quality :: "jsnum option"
  outputDir :: "string option"
  keepOriginal :: "bool option"
  format :: "string option"

record OptimizeResult =
  inputPath :: string
  outputPath :: string
  originalSize :: nat
  optimizedSize :: nat
  reduction :: jsnum
  success :: bool
  error :: "string option"

text \<open>The destructuring defaults of \<^verbatim>\<open>optimizeImage\<close>; an absent field is \<open>None\<close>.
  In the definitions below \<open>inPath\<close> is the parameter \<^verbatim>\<open>inputPath\<close> of the source, whose
  name the record field has taken.\<close>

definition quality_or_default :: "OptimizeOptions \<Rightarrow> jsnum" where
  "quality_or_default options = (case quality options of None \<Rightarrow> Num 75 | Some q \<Rightarrow> q)"

definition keepOriginal_or_default :: "OptimizeOptions \<Rightarrow> bool" where
  "keepOriginal_or_default options = (case keepOriginal options of None \<Rightarrow> False | Some k \<Rightarrow> k)"

definition format_or_default :: "OptimizeOptions \<Rightarrow> string" where
  "format_or_default options = (case format options of None \<Rightarrow> ''webp'' | Some f \<Rightarrow> f)"

text \<open>\<^verbatim>\<open>outputDir ? ... : ...\<close>: an absent and an empty \<^verbatim>\<open>outputDir\<close> are both falsy.\<close>

definition truthy_outputDir :: "OptimizeOptions \<Rightarrow> string option" where
  "truthy_outputDir options =
     (case outputDir options of None \<Rightarrow> None | Some d \<Rightarrow> if d = [] then None else Some d)"

definition outputExtension :: "string \<Rightarrow> string" where
  "outputExtension fmt = (if fmt = ''jpg'' then ''jpg'' else fmt)"

definition compute_outputPath :: "string \<Rightarrow> OptimizeOptions \<Rightarrow> string" where
  "compute_outputPath inPath options =
     (let inputDir = path_dirname inPath;
          inputName = path_basename inPath (path_extname inPath);
          fileName = inputName @ ''.'' @ outputExtension (format_or_default options)
      in case truthy_outputDir options of
           Some d \<Rightarrow> path_join [d, fileName]
         | None \<Rightarrow> path_join [inputDir, fileName])"

text \<open>Lines 62 to 65: the compression level handed to the PNG encoder.\<close>

definition compressionLevel :: "jsnum \<Rightarrow> jsnum" where
  "compressionLevel q = math_round (js_div_by (js_sub_from 100 q) (1111 / 100))"

definition png_compressionLevel :: "jsnum \<Rightarrow> jsnum" where
  "png_compressionLevel q = math_min 9 (math_max 0 (compressionLevel q))"

definition select_encoder :: "string \<Rightarrow> jsnum \<Rightarrow> encoder" where
  "select_encoder fmt q =
     (if fmt = ''webp'' then WebpEncoder q 6
      else if fmt = ''png'' then PngEncoder (png_compressionLevel q)
      else if fmt = ''jpg'' then JpegEncoder q True
      else ByOutputExtension)"

text \<open>
  Line 75, \<^verbatim>\<open>((originalSize - optimizedSize) / originalSize) * 100\<close>, and line 89,
  \<^verbatim>\<open>Math.round(reduction * 100) / 100\<close>: a subtraction, a division, two multiplications
  and a last division, each rounded to a double.
\<close>

definition reduction_percent :: "nat \<Rightarrow> nat \<Rightarrow> jsnum" where
  "reduction_percent orig opt =
     double_times (double_divide (fl (of_nat orig - of_nat opt)) (of_nat orig)) 100"

definition rounded_reduction :: "nat \<Rightarrow> nat \<Rightarrow> jsnum" where
  "rounded_reduction orig opt =
     double_over (math_round (double_times (reduction_percent orig opt) 100)) 100"

definition should_delete_original :: "string \<Rightarrow> OptimizeOptions \<Rightarrow> bool" where
  "should_delete_original inPath options =
     (let inputExt = toLowerCase (path_extname inPath);
          outputExt = ''.'' @ outputExtension (format_or_default options)
      in \<not> keepOriginal_or_default options \<and> inputExt \<noteq> outputExt)"

text \<open>
  The body of the \<^verbatim>\<open>try\<close> block, lines 37 to 91. Each awaited call that rejects leaves
  the block with the error and the file system as it is at that moment.
\<close>

definition optimizeImage_try ::
  "codec \<Rightarrow> world \<Rightarrow> string \<Rightarrow> OptimizeOptions \<Rightarrow> (js_error \<times> world) + (OptimizeResult \<times> world)" where
  "optimizeImage_try codec w inPath options =
     (case fs_access w inPath of
        Inl e \<Rightarrow> Inl (e, w)
      | Inr u \<Rightarrow>
     (case fs_stat_size w inPath of
        Inl e \<Rightarrow> Inl (e, w)
      | Inr origSize \<Rightarrow>
     (let outPath = compute_outputPath inPath options
      in
     (case (case truthy_outputDir options of
              Some d \<Rightarrow> fs_mkdir_recursive w d
            | None \<Rightarrow> Inr w) of
        Inl e \<Rightarrow> Inl (e, w)
      | Inr w1 \<Rightarrow>
     (case sharp_toFile codec w1 inPath
             (select_encoder (format_or_default options) (quality_or_default options)) outPath of
        Inl e \<Rightarrow> Inl (e, w1)
      | Inr w2 \<Rightarrow>
     (case fs_stat_size w2 outPath of
        Inl e \<Rightarrow> Inl (e, w2)
      | Inr optSize \<Rightarrow>
     (case (if should_delete_original inPath options then fs_unlink w2 inPath
            else Inr w2) of
        Inl e \<Rightarrow> Inl (e, w2)
      | Inr w3 \<Rightarrow>
          Inr (\<lparr> inputPath = inPath,
                 outputPath = outPath,
                 originalSize = origSize,
                 optimizedSize = optSize,
                 reduction = rounded_reduction origSize optSize,
                 success = True,
                 error = None \<rparr>, w3))))))))"

text \<open>The \<^verbatim>\<open>catch\<close> block, lines 92 to 102.\<close>

definition failure_result :: "string \<Rightarrow> js_error \<Rightarrow> OptimizeResult" where
  "failure_result p e =
     \<lparr> inputPath = p,
       outputPath = [],
       originalSize = 0,
       optimizedSize = 0,
       reduction = Num 0,
       success = False,
       error = Some (error_message e) \<rparr>"

definition optimizeImage ::
  "codec \<Rightarrow> world \<Rightarrow> string \<Rightarrow> OptimizeOptions \<Rightarrow> OptimizeResult \<times> world" where
  "optimizeImage codec w inPath options =
     (case optimizeImage_try codec w inPath options of
        Inr (r, w') \<Rightarrow> (r, w')
      | Inl (e, w') \<Rightarrow> (failure_result inPath e, w'))"

text \<open>\<^verbatim>\<open>optimizeBatch\<close>, lines 108 to 120: the loop pushes one result per input path.\<close>

fun optimizeBatch_loop ::
  "codec \<Rightarrow> OptimizeOptions \<Rightarrow> string list \<Rightarrow> OptimizeResult list \<Rightarrow> world \<Rightarrow> OptimizeResult list \<times> world" where
  "optimizeBatch_loop codec options [] results w = (results, w)"
| "optimizeBatch_loop codec options (p # ps) results w =
     (let (result, w') = optimizeImage codec w p options
      in optimizeBatch_loop codec options ps (results @ [result]) w')"

definition optimizeBatch ::
  "codec \<Rightarrow> world \<Rightarrow> string list \<Rightarrow> OptimizeOptions \<Rightarrow> OptimizeResult list \<times> world" where
  "optimizeBatch codec w inputPaths options = optimizeBatch_loop codec options inputPaths [] w"

section \<open>\<^verbatim>\<open>findImagesInDirectory\<close> and \<^verbatim>\<open>formatBytes\<close>\<close>

text \<open>
  What \<^verbatim>\<open>fs.readdir(dir, { withFileTypes: true })\<close> shows of a directory tree: each
  entry has a name and is a regular file, a directory, or something else (a link, a
  socket); a directory is listed, or reading it rejects.
\<close>

datatype dirent = FileEntry string | DirEntry string listing | OtherEntry string
  and listing = Entries "dirent list" | Unreadable js_error

definition supportedExtensions :: "string list" where
  "supportedExtensions = [''.png'', ''.jpg'', ''.jpeg'', ''.webp'']"

text \<open>
  \<^verbatim>\<open>scanDirectory\<close>, lines 132 to 147; \<open>images\<close> is the array the closure pushes to.
\<close>

fun scanDirectory :: "bool \<Rightarrow> string \<Rightarrow> listing \<Rightarrow> string list \<Rightarrow> js_error + string list"
  and scan_entries :: "bool \<Rightarrow> string \<Rightarrow> dirent list \<Rightarrow> string list \<Rightarrow> js_error + string list" where
  "scanDirectory recursive currentPath (Unreadable e) images = Inl e"
| "scanDirectory recursive currentPath (Entries es) images =
     scan_entries recursive currentPath es images"
| "scan_entries recursive currentPath [] images = Inr images"
| "scan_entries recursive currentPath (DirEntry name sub # es) images =
     (if recursive then
        (case scanDirectory recursive (path_join [currentPath, name]) sub images of
           Inl e \<Rightarrow> Inl e
         | Inr images' \<Rightarrow> scan_entries recursive currentPath es images')
      else scan_entries recursive currentPath es images)"
| "scan_entries recursive currentPath (FileEntry name # es) images =
     (let fullPath = path_join [currentPath, name];
          ext = toLowerCase (path_extname name)
      in if ext \<in> set supportedExtensions
         then scan_entries recursive currentPath es (images @ [fullPath])
         else scan_entries recursive currentPath es images)"
| "scan_entries recursive currentPath (OtherEntry name # es) images =
     scan_entries recursive currentPath es images"

definition findImagesInDirectory :: "listing \<Rightarrow> string \<Rightarrow> bool \<Rightarrow> js_error + string list" where
  "findImagesInDirectory tree dirPath recursive = scanDirectory recursive dirPath tree []"

text \<open>
  The regular files of a tree that the scan is meant to reach, each with its full path
  and its name: the files of the directory itself and, when \<open>recursive\<close> holds, those of
  its subdirectories.
\<close>

inductive reachable_file :: "bool \<Rightarrow> string \<Rightarrow> listing \<Rightarrow> string \<Rightarrow> string \<Rightarrow> bool" where
  here: "FileEntry name \<in> set es \<Longrightarrow>
     reachable_file recursive cur (Entries es) (path_join [cur, name]) name"
| below: "DirEntry d sub \<in> set es \<Longrightarrow> recursive \<Longrightarrow>
     reachable_file recursive (path_join [cur, d]) sub p name \<Longrightarrow>
     reachable_file recursive cur (Entries es) p name"

text \<open>Decimal digits of a natural number, and of a count of hundredths as JavaScript
  prints it (\<^verbatim>\<open>1536\<close> hundredths are \<^verbatim>\<open>15.36\<close>, \<^verbatim>\<open>150\<close> are \<^verbatim>\<open>1.5\<close>).\<close>

fun string_of_nat :: "nat \<Rightarrow> string" where
  "string_of_nat n =
     (if n < 10 then [char_of (48 + n)]
      else string_of_nat (n div 10) @ [char_of (48 + n mod 10)])"

definition string_of_hundredths :: "nat \<Rightarrow> string" where
  "string_of_hundredths h =
     string_of_nat (h div 100) @
       (if h mod 100 = 0 then []
        else if h mod 10 = 0 then ''.'' @ string_of_nat (h mod 100 div 10)
        else ''.'' @ string_of_nat (h mod 100 div 10) @ string_of_nat (h mod 10))"

definition sizes :: "string list" where
  "sizes = [''Bytes'', ''KB'', ''MB'', ''GB'']"

text \<open>\<^verbatim>\<open>sizes[i]\<close> inside a string concatenation: out of range it reads
  \<^verbatim>\<open>undefined\<close>.\<close>

definition sizes_at :: "nat \<Rightarrow> string" where
  "sizes_at i = (if i < length sizes then sizes ! i else ''undefined'')"

text \<open>Line 160, \<^verbatim>\<open>Math.floor(Math.log(bytes) / Math.log(k))\<close>, in exact arithmetic.\<close>

definition unit_index :: "nat \<Rightarrow> nat" where
  "unit_index bytes = nat \<lfloor>ln (real bytes) / ln 1024\<rfloor>"

definition formatBytes :: "int \<Rightarrow> string" where
  "formatBytes bytes =
     (if bytes = 0 then ''0 Bytes''
      else if bytes < 0 then ''NaN undefined''
      else
        let i = unit_index (nat bytes);
            hundredths = round_half_up (of_int bytes / 1024 ^ i * 100)
        in string_of_hundredths (nat hundredths) @ '' '' @ sizes_at i)"

section \<open>The HTTP handlers\<close>

datatype error_detail = ErrorDetail (detail_file: string) (detail_error: string)

datatype json_body =
  JsonBody (body_error: string) (body_details: "error_detail list option")
    (body_message: "string option")

datatype archive_entry = ArchiveEntry (entry_name: string) (entry_source: string)

datatype response = Json nat json_body

text \<open>\<^verbatim>\<open>parseInt(s, 10)\<close>: leading white space, an optional sign, then the longest run
  of decimal digits; NaN when there is none.\<close>

definition is_digit :: "char \<Rightarrow> bool" where
  "is_digit c = (48 \<le> (of_char c :: nat) \<and> (of_char c :: nat) \<le> 57)"

definition is_space :: "char \<Rightarrow> bool" where
  "is_space c = ((of_char c :: nat) \<in> {9, 10, 11, 12, 13, 32})"

fun digits_value :: "nat \<Rightarrow> string \<Rightarrow> nat" where
  "digits_value acc [] = acc"
| "digits_value acc (c # cs) = digits_value (10 * acc + (of_char c - 48)) cs"

definition parseInt10 :: "string \<Rightarrow> jsnum" where
  "parseInt10 s =
     (let t = dropWhile is_space s;
          negative = (t \<noteq> [] \<and> hd t = CHR ''-'');
          u = (if t \<noteq> [] \<and> (hd t = CHR ''-'' \<or> hd t = CHR ''+'') then tl t else t);
          ds = takeWhile is_digit u
      in if ds = [] then NaN
         else if negative then Num (- of_nat (digits_value 0 ds))
         else Num (of_nat (digits_value 0 ds)))"

text \<open>\<^verbatim>\<open>x || d\<close> on an optional string: absent and empty are falsy.\<close>

definition or_default :: "string option \<Rightarrow> string \<Rightarrow> string" where
  "or_default x d = (case x of None \<Rightarrow> d | Some v \<Rightarrow> if v = [] then d else v)"

text \<open>Lines 102 to 105 of \<^verbatim>\<open>api/optimize.ts\<close> (270 to 273 of \<^verbatim>\<open>src/index.ts\<close>).\<close>

definition detail_of :: "OptimizeResult \<Rightarrow> error_detail" where
  "detail_of r = ErrorDetail (inputPath r) (or_default (error r) ''Erro desconhecido'')"

text \<open>\<^verbatim>\<open>try { await fs.unlink(p) } catch { }\<close>\<close>

definition unlink_quietly :: "world \<Rightarrow> string \<Rightarrow> world" where
  "unlink_quietly w p = (case fs_unlink w p of Inl e \<Rightarrow> w | Inr w' \<Rightarrow> w')"

text \<open>
  The loop that fills the archive (\<^verbatim>\<open>api/optimize.ts\<close> 120 to 128, \<^verbatim>\<open>src/index.ts\<close> 365 to
  374). The state is the list of entries queued in the archive and the lines written
  with \<^verbatim>\<open>console.error\<close>.
\<close>

definition not_found_line :: "string \<Rightarrow> string" where
  "not_found_line p = ''Arquivo n'' @ [CHR 0xC3, CHR 0xA3] @ ''o encontrado: '' @ p"

fun add_files_to_archive ::
  "world \<Rightarrow> string list \<Rightarrow> archive_entry list \<Rightarrow> string list \<Rightarrow> archive_entry list \<times> string list" where
  "add_files_to_archive w [] archive console = (archive, console)"
| "add_files_to_archive w (filePath # rest) archive console =
     (case fs_access w filePath of
        Inr u \<Rightarrow>
          add_files_to_archive w rest
            (archive @ [ArchiveEntry (path_basename filePath []) filePath]) console
      | Inl e \<Rightarrow>
          add_files_to_archive w rest archive (console @ [not_found_line filePath]))"

subsection \<open>\<^verbatim>\<open>api/optimize.ts\<close>\<close>

record uploaded_file =
  filepath :: "string option"
  legacy_path :: "string option"

text \<open>\<^verbatim>\<open>(file as any).filepath || (file as any).path\<close>\<close>

definition upload_filePath :: "uploaded_file \<Rightarrow> string option" where
  "upload_filePath f =
     (case filepath f of
        Some p \<Rightarrow> if p \<noteq> [] then Some p
                  else (case legacy_path f of None \<Rightarrow> None | Some q \<Rightarrow> if q = [] then None else Some q)
      | None \<Rightarrow> (case legacy_path f of None \<Rightarrow> None | Some q \<Rightarrow> if q = [] then None else Some q))"

datatype images_field = NoImages | OneImage uploaded_file | ManyImages "uploaded_file list"

text \<open>What \<^verbatim>\<open>form.parse\<close> resolves with: the first value of the \<^verbatim>\<open>quality\<close> and
  \<^verbatim>\<open>format\<close> fields, and \<^verbatim>\<open>files.images\<close>.\<close>

record form_data =
  quality_0 :: "string option"
  format_0 :: "string option"
  images :: images_field

text \<open>A request: its method, and what parsing its body does. The multipart parser
  writes the uploads to disk, so it takes and returns the file system.\<close>

record request =
  req_method :: string
  parse_form :: "world \<Rightarrow> js_error + (form_data \<times> world)"

definition tempDir :: string where
  "tempDir = ''/tmp/optimize''"

definition fileArray_of :: "images_field \<Rightarrow> uploaded_file list" where
  "fileArray_of i = (case i of ManyImages fs \<Rightarrow> fs | OneImage f \<Rightarrow> [f] | NoImages \<Rightarrow> [])"

definition handler_options :: "string \<Rightarrow> jsnum \<Rightarrow> string \<Rightarrow> OptimizeOptions" where
  "handler_options dir q fmt =
     \<lparr> quality = Some q, outputDir = Some dir, keepOriginal = Some False, format = Some fmt \<rparr>"

text \<open>
  Lines 61 to 97. \<^verbatim>\<open>optimizeImage\<close> returns in every case and the inner \<^verbatim>\<open>unlink\<close> has
  its own \<^verbatim>\<open>catch\<close>, so the outer \<^verbatim>\<open>catch\<close> of the loop body is never entered.
\<close>

fun handler_loop ::
  "codec \<Rightarrow> jsnum \<Rightarrow> string \<Rightarrow> uploaded_file list \<Rightarrow>
   OptimizeResult list \<times> string list \<times> world \<Rightarrow> OptimizeResult list \<times> string list \<times> world" where
  "handler_loop codec q fmt [] st = st"
| "handler_loop codec q fmt (file # rest) (results, optimizedFiles, w) =
     (case upload_filePath file of
        None \<Rightarrow> handler_loop codec q fmt rest (results, optimizedFiles, w)
      | Some filePath \<Rightarrow>
          (let (result, w1) = optimizeImage codec w filePath (handler_options tempDir q fmt);
               optimizedFiles' =
                 (if success result then optimizedFiles @ [outputPath result] else optimizedFiles)
           in handler_loop codec q fmt rest
                (results @ [result], optimizedFiles', unlink_quietly w1 filePath)))"

definition server_error :: "js_error \<Rightarrow> response" where
  "server_error e =
     Json 500 (JsonBody ''Erro ao processar imagens'' None (Some (error_message e)))"

text \<open>
  What a call of the handler comes to: a response is sent, or none ever is. On the path
  where at least one image was optimized the handler awaits \<^verbatim>\<open>archive.finalize()\<close> (line
  130) and only then subscribes to the archive's \<^verbatim>\<open>end\<close> event and awaits it (lines 133
  to 135). The promise of \<^verbatim>\<open>finalize\<close> is resolved once the archive has ended, so the
  event has been emitted before the listener exists: the second \<^verbatim>\<open>await\<close> never
  returns, and lines 137 to 156 (the clean-up of the optimized files and the sending of
  the archive) are not reached. \<open>NeverResponds\<close> carries the entries the finalized
  archive was filled with.
\<close>

datatype handler_outcome = Sent response | NeverResponds "archive_entry list"

definition handler :: "codec \<Rightarrow> world \<Rightarrow> request \<Rightarrow> handler_outcome \<times> world" where
  "handler codec w req =
     (if req_method req \<noteq> ''POST''
      then (Sent (Json 405 (JsonBody ''Method not allowed'' None None)), w)
      else
        (case fs_mkdir_recursive w tempDir of
           Inl e \<Rightarrow> (Sent (server_error e), w)
         | Inr w1 \<Rightarrow>
        (case parse_form req w1 of
           Inl e \<Rightarrow> (Sent (server_error e), w1)
         | Inr (form, w2) \<Rightarrow>
        (let q = parseInt10 (or_default (quality_0 form) ''75'');
             fmt = or_default (format_0 form) ''webp'';
             fileArray = fileArray_of (images form)
         in if length fileArray = 0
            then (Sent (Json 400 (JsonBody ''Nenhuma imagem foi enviada'' None None)), w2)
            else
              (case handler_loop codec q fmt fileArray ([], [], w2) of
                 (results, optimizedFiles, w3) \<Rightarrow>
                   if length optimizedFiles = 0
                   then (Sent (Json 400
                           (JsonBody ''Nenhuma imagem foi processada com sucesso''
                              (Some (map detail_of results)) None)), w3)
                   else
                     (let (archive, console) = add_files_to_archive w3 optimizedFiles [] []
                      in (NeverResponds archive, w3)))))))"

subsection \<open>\<^verbatim>\<open>src/index.ts\<close>, the \<^verbatim>\<open>/optimize\<close> route\<close>

text \<open>
  The route is modelled up to the point where its archive has been filled. Sending the
  archive is wired through stream events and is not part of the embedding; the outcome
  \<open>Archived\<close> stands for it. \<open>route_tempDir\<close> is the route's \<^verbatim>\<open>tempDir\<close>, which depends
  on where the program is installed.
\<close>

record multer_file =
  multer_path :: string
  originalname :: string

record route_request =
  body_quality :: "string option"
  body_format :: "string option"
  req_files :: "multer_file list option"

datatype route_outcome = Responded response | Archived "archive_entry list" "string list"

fun route_loop ::
  "codec \<Rightarrow> string \<Rightarrow> jsnum \<Rightarrow> string \<Rightarrow> multer_file list \<Rightarrow>
   OptimizeResult list \<times> string list \<times> world \<Rightarrow> OptimizeResult list \<times> string list \<times> world" where
  "route_loop codec dir q fmt [] st = st"
| "route_loop codec dir q fmt (file # rest) (results, optimizedFiles, w) =
     (let (result, w1) = optimizeImage codec w (multer_path file) (handler_options dir q fmt);
          optimizedFiles' =
            (if success result then optimizedFiles @ [outputPath result] else optimizedFiles)
      in route_loop codec dir q fmt rest
           (results @ [result], optimizedFiles', unlink_quietly w1 (multer_path file)))"

definition optimize_route ::
  "codec \<Rightarrow> string \<Rightarrow> world \<Rightarrow> route_request \<Rightarrow> route_outcome \<times> world" where
  "optimize_route codec route_tempDir w req =
     (let q = parseInt10 (or_default (body_quality req) ''75'');
          fmt = or_default (body_format req) ''webp''
      in case req_files req of
           None \<Rightarrow> (Responded (Json 400 (JsonBody ''Nenhuma imagem foi enviada'' None None)), w)
         | Some files \<Rightarrow>
             if length files = 0
             then (Responded (Json 400 (JsonBody ''Nenhuma imagem foi enviada'' None None)), w)
             else
               (case fs_mkdir_recursive w route_tempDir of
                  Inl e \<Rightarrow>
                    (Responded (server_error e), foldl unlink_quietly w (map multer_path files))
                | Inr w1 \<Rightarrow>
                    (case route_loop codec route_tempDir q fmt files ([], [], w1) of
                       (results, optimizedFiles, w2) \<Rightarrow>
                         if length optimizedFiles = 0
                         then (Responded
                                 (Json 400
                                    (JsonBody ''Nenhuma imagem foi processada com sucesso''
                                       (Some (map detail_of results)) None)), w2)
                         else
                           (let (archive, console) = add_files_to_archive w2 optimizedFiles [] []
                            in (Archived archive optimizedFiles, w2)))))"

section \<open>Shapes of a result, and example inputs\<close>

text \<open>The two shapes an \<open>OptimizeResult\<close> is meant to have.\<close>

definition success_shape :: "OptimizeResult \<Rightarrow> bool" where
  "success_shape r = (success r \<and> outputPath r \<noteq> [] \<and> error r = None)"

definition failure_shape :: "OptimizeResult \<Rightarrow> bool" where
  "failure_shape r =
     (\<not> success r \<and> error r \<noteq> None \<and> outputPath r = [] \<and> originalSize r = 0
      \<and> optimizedSize r = 0 \<and> reduction r = Num 0)"

text \<open>A small file system, two codecs and the empty options object, for the examples.\<close>

definition example_world :: world where
  "example_world =
     [''/img'' \<mapsto> Directory 4096, ''/img/a.png'' \<mapsto> RegularFile 1000,
      ''/img/c.webp'' \<mapsto> RegularFile 900, ''/img/empty.png'' \<mapsto> RegularFile 0]"

definition example_codec :: codec where
  "example_codec = (\<lambda>w i enc out. Inr 400)"

definition rejecting_codec :: codec where
  "rejecting_codec =
     (\<lambda>w i enc out. Inl (JsError ''Input file contains unsupported image format''))"

text \<open>
  A zero-byte file holds no image: \<^verbatim>\<open>sharp\<close> rejects it, whatever the target format.
  The codec is a parameter of the model, so this is a property a codec may have.
\<close>

definition codec_rejects_empty_source :: "codec \<Rightarrow> bool" where
  "codec_rejects_empty_source codec =
     (\<forall>w i enc out n. fs_lookup w i = Some n \<and> node_size n = 0 \<longrightarrow> isl (codec w i enc out))"

text \<open>A codec that rejects zero-byte sources and compresses every other file to 400
  bytes.\<close>

definition size_checking_codec :: codec where
  "size_checking_codec =
     (\<lambda>w i enc out.
        case fs_lookup w i of
          None \<Rightarrow> Inl (JsError ''Input file is missing'')
        | Some n \<Rightarrow>
            if node_size n = 0 then Inl (JsError ''Input file contains unsupported image format'')
            else Inr 400)"

text \<open>Two sources of 320 and 160 bytes, and codecs whose outputs have 126 and 73 bytes:
  the exact percentages, 60.625 and 54.375, lie halfway between two hundredths.\<close>

definition tie_world :: world where
  "tie_world = [''/img/t.png'' \<mapsto> RegularFile 320, ''/img/s.png'' \<mapsto> RegularFile 160]"

definition codec_126 :: codec where
  "codec_126 = (\<lambda>w i enc out. Inr 126)"

definition codec_73 :: codec where
  "codec_73 = (\<lambda>w i enc out. Inr 73)"

definition default_options :: OptimizeOptions where
  "default_options = \<lparr> quality = None, outputDir = None, keepOriginal = None, format = None \<rparr>"


section \<open>Vocabulary of the handler and directory-scan statements\<close>

text \<open>The entry the archive loop queues for a path, and the two 400 bodies of the
  handlers.\<close>

definition has_filePath :: "uploaded_file \<Rightarrow> bool" where
  "has_filePath f = (upload_filePath f \<noteq> None)"

definition archive_entry_of :: "string \<Rightarrow> archive_entry" where
  "archive_entry_of p = ArchiveEntry (path_basename p []) p"

definition handler_quality :: "form_data \<Rightarrow> jsnum" where
  "handler_quality form = parseInt10 (or_default (quality_0 form) ''75'')"

definition handler_format :: "form_data \<Rightarrow> string" where
  "handler_format form = or_default (format_0 form) ''webp''"

definition route_quality :: "route_request \<Rightarrow> jsnum" where
  "route_quality req = parseInt10 (or_default (body_quality req) ''75'')"

definition route_format :: "route_request \<Rightarrow> string" where
  "route_format req = or_default (body_format req) ''webp''"

definition no_files_body :: json_body where
  "no_files_body = JsonBody ''Nenhuma imagem foi enviada'' None None"

definition none_processed_body :: "OptimizeResult list \<Rightarrow> json_body" where
  "none_processed_body results =
     JsonBody ''Nenhuma imagem foi processada com sucesso'' (Some (map detail_of results)) None"

text \<open>The names the scan accepts, the regular files directly inside a directory, and the
  set of image paths within reach of a scan.\<close>

definition is_image_name :: "string \<Rightarrow> bool" where
  "is_image_name name = (toLowerCase (path_extname name) \<in> {''.png'', ''.jpg'', ''.jpeg'', ''.webp''})"

definition direct_file_names :: "dirent list \<Rightarrow> string list" where
  "direct_file_names es = concat (map (\<lambda>e. case e of FileEntry n \<Rightarrow> [n] | _ \<Rightarrow> []) es)"

definition example_tree :: listing where
  "example_tree =
     Entries [FileEntry ''PHOTO.JPG'', FileEntry ''notes.txt'',
       DirEntry ''sub'' (Entries [FileEntry ''img.PnG'']), DirEntry ''locked'' (Unreadable JsThrown),
       OtherEntry ''link.png'']"

definition reachable_images :: "bool \<Rightarrow> string \<Rightarrow> listing \<Rightarrow> string set" where
  "reachable_images r cur l = {p. \<exists>n. reachable_file r cur l p n \<and> is_image_name n}"

definition readable_tree :: listing where
  "readable_tree =
     Entries [FileEntry ''PHOTO.JPG'', FileEntry ''notes.txt'',
       DirEntry ''sub'' (Entries [FileEntry ''img.PnG'', FileEntry ''raw.tiff'']),
       OtherEntry ''link.png'']"

text \<open>Requests and file systems for the examples.\<close>

definition no_files_request :: request where
  "no_files_request =
     \<lparr> req_method = ''POST'',
       parse_form = (\<lambda>w. Inr (\<lparr> quality_0 = None, format_0 = None, images = NoImages \<rparr>, w)) \<rparr>"

definition two_uploads :: "uploaded_file list" where
  "two_uploads =
     [\<lparr> filepath = Some ''/tmp/optimize/u1.png'', legacy_path = None \<rparr>,
      \<lparr> filepath = Some ''/tmp/optimize/u2.png'', legacy_path = None \<rparr>]"

definition two_files_form :: form_data where
  "two_files_form =
     \<lparr> quality_0 = Some ''80'', format_0 = Some ''webp'', images = ManyImages two_uploads \<rparr>"

definition two_files_request :: request where
  "two_files_request =
     \<lparr> req_method = ''POST'', parse_form = (\<lambda>w. Inr (two_files_form, w)) \<rparr>"

definition two_multer_files :: "multer_file list" where
  "two_multer_files =
     [\<lparr> multer_path = ''/app/uploads/f1'', originalname = ''a.png'' \<rparr>,
      \<lparr> multer_path = ''/app/uploads/f2'', originalname = ''b.png'' \<rparr>]"

definition no_files_route_request :: route_request where
  "no_files_route_request = \<lparr> body_quality = None, body_format = None, req_files = Some [] \<rparr>"

definition two_files_route_request :: route_request where
  "two_files_route_request =
     \<lparr> body_quality = Some ''80'', body_format = None, req_files = Some two_multer_files \<rparr>"

definition upload_world :: world where
  "upload_world =
     [''/tmp'' \<mapsto> Directory 4096, ''/tmp/optimize'' \<mapsto> Directory 4096,
      ''/tmp/optimize/u1.png'' \<mapsto> RegularFile 1000,
      ''/app'' \<mapsto> Directory 4096, ''/app/uploads'' \<mapsto> Directory 4096,
      ''/app/temp'' \<mapsto> Directory 4096, ''/app/uploads/f1'' \<mapsto> RegularFile 2000]"

definition one_upload_form :: form_data where
  "one_upload_form =
     \<lparr> quality_0 = Some ''80'', format_0 = None,
       images = OneImage \<lparr> filepath = Some ''/tmp/optimize/u1.png'', legacy_path = None \<rparr> \<rparr>"

definition one_upload_request :: request where
  "one_upload_request =
     \<lparr> req_method = ''POST'', parse_form = (\<lambda>w. Inr (one_upload_form, w)) \<rparr>"

definition one_multer_file :: multer_file where
  "one_multer_file = \<lparr> multer_path = ''/app/uploads/f1'', originalname = ''a.png'' \<rparr>"

definition one_file_route_request :: route_request where
  "one_file_route_request =
     \<lparr> body_quality = None, body_format = None, req_files = Some [one_multer_file] \<rparr>"

definition all_directories :: "world \<Rightarrow> string list \<Rightarrow> bool" where
  "all_directories w ds =
     list_all (\<lambda>d. case w d of Some (Directory s) \<Rightarrow> True | _ \<Rightarrow> False) ds"

section \<open>Properties of the path and file-system operations\<close>

lemma path_normalize_nonempty: "path_normalize p \<noteq> []"
  by (simp add: path_normalize_def Let_def)

lemma path_join_nonempty: "path_join args \<noteq> []"
  by (simp add: path_join_def Let_def path_normalize_nonempty)

lemma compute_outputPath_nonempty: "compute_outputPath p options \<noteq> []"
  by (simp add: compute_outputPath_def Let_def path_join_nonempty split: option.splits)












lemma mkdir_each_preserves:
  "mkdir_each w ds = Inr w1 \<Longrightarrow> w k = Some n \<Longrightarrow> w1 k = Some n"
proof (induction ds arbitrary: w)
  case Nil
  then show ?case by simp
next
  case (Cons d ds)
  show ?case
  proof (cases "w d")
    case None
    with Cons.prems have rest: "mkdir_each (w(d \<mapsto> Directory new_directory_size)) ds = Inr w1"
      and "k \<noteq> d"
      by auto
    then have "(w(d \<mapsto> Directory new_directory_size)) k = Some n"
      using Cons.prems(2) by simp
    then show ?thesis by (rule Cons.IH[OF rest])
  next
    case (Some node)
    with Cons.prems show ?thesis
      by (cases node) (auto intro: Cons.IH)
  qed
qed


lemma fs_mkdir_recursive_preserves:
  "fs_mkdir_recursive w d = Inr w1 \<Longrightarrow> w k = Some n \<Longrightarrow> w1 k = Some n"
  by (auto simp: fs_mkdir_recursive_def split: if_splits intro: mkdir_each_preserves)


lemma optimizeImage_try_steps:
  assumes "optimizeImage_try codec w p options = Inr (r, w')"
  shows "\<exists>node w1 n.
     fs_lookup w p = Some node
   \<and> (case truthy_outputDir options of Some d \<Rightarrow> fs_mkdir_recursive w d = Inr w1 | None \<Rightarrow> w1 = w)
   \<and> codec w1 p (select_encoder (format_or_default options) (quality_or_default options))
        (compute_outputPath p options) = Inr n
   \<and> (if should_delete_original p options
        then fs_unlink (w1(fs_key (compute_outputPath p options) \<mapsto> RegularFile n)) p = Inr w'
        else w' = w1(fs_key (compute_outputPath p options) \<mapsto> RegularFile n))
   \<and> r = \<lparr> inputPath = p, outputPath = compute_outputPath p options,
            originalSize = node_size node, optimizedSize = n,
            reduction = rounded_reduction (node_size node) n, success = True, error = None \<rparr>"
proof -
  let ?out = "compute_outputPath p options"
  let ?enc = "select_encoder (format_or_default options) (quality_or_default options)"
  from assms obtain node where node: "fs_lookup w p = Some node"
    by (auto simp: optimizeImage_try_def fs_access_def split: sum.splits option.splits)
  then have acc: "fs_access w p = Inr ()" and st: "fs_stat_size w p = Inr (node_size node)"
    by (simp_all add: fs_access_def fs_stat_size_def)
  from assms obtain w1 where
    w1: "(case truthy_outputDir options of Some d \<Rightarrow> fs_mkdir_recursive w d | None \<Rightarrow> Inr w) = Inr w1"
    by (auto simp: optimizeImage_try_def acc st Let_def split: sum.splits)
  from assms obtain w2 where w2: "sharp_toFile codec w1 p ?enc ?out = Inr w2"
    by (auto simp: optimizeImage_try_def acc st w1 Let_def split: sum.splits)
  then obtain n where n: "codec w1 p ?enc ?out = Inr n" "w2 = w1(fs_key ?out \<mapsto> RegularFile n)"
    by (auto simp: sharp_toFile_def split: sum.splits)
  have st2: "fs_stat_size w2 ?out = Inr n"
    by (simp add: fs_stat_size_def fs_lookup_def n(2) compute_outputPath_nonempty node_size_def)
  from assms have fin: "(if should_delete_original p options then fs_unlink w2 p = Inr w' else w' = w2)
     \<and> r = \<lparr> inputPath = p, outputPath = ?out,
            originalSize = node_size node, optimizedSize = n,
            reduction = rounded_reduction (node_size node) n, success = True, error = None \<rparr>"
    by (auto simp: optimizeImage_try_def acc st w1 w2 st2 Let_def split: sum.splits if_splits)
  from w1 have "(case truthy_outputDir options of Some d \<Rightarrow> fs_mkdir_recursive w d = Inr w1 | None \<Rightarrow> w1 = w)"
    by (auto split: option.splits)
  with node n fin show ?thesis by auto
qed

lemma optimizeImage_success_steps:
  assumes "optimizeImage codec w p options = (r, w')" "success r"
  shows "optimizeImage_try codec w p options = Inr (r, w')"
  using assms
  by (cases "optimizeImage_try codec w p options")
     (auto simp: optimizeImage_def failure_result_def)


section \<open>The single-item optimizer\<close>

lemma optimizeImage_try_Inr:
  "optimizeImage_try codec w p options = Inr (r, w') \<Longrightarrow>
     success r \<and> error r = None \<and> inputPath r = p \<and> outputPath r = compute_outputPath p options
     \<and> reduction r = rounded_reduction (originalSize r) (optimizedSize r)"
  by (auto simp: optimizeImage_try_def Let_def split: sum.splits option.splits if_splits)

lemma optimizeImage_cases:
  "(\<exists>r w'. optimizeImage_try codec w p options = Inr (r, w')
       \<and> optimizeImage codec w p options = (r, w'))
   \<or> (\<exists>e w'. optimizeImage_try codec w p options = Inl (e, w')
       \<and> optimizeImage codec w p options = (failure_result p e, w'))"
  by (cases "optimizeImage_try codec w p options") (auto simp: optimizeImage_def)

lemma fs_unlink_removes:
  "fs_unlink w p = Inr w' \<Longrightarrow> fs_lookup w' p = None \<and> w' = w(fs_key p := None)"
  by (auto simp: fs_unlink_def fs_lookup_def split: option.splits fs_node.splits if_splits)

lemma optimizeImage_success_eq:
  assumes "fs_lookup w p = Some (RegularFile s)"
    and "(case truthy_outputDir options of Some d \<Rightarrow> fs_mkdir_recursive w d | None \<Rightarrow> Inr w) = Inr w1"
    and "codec w1 p (select_encoder (format_or_default options) (quality_or_default options))
           (compute_outputPath p options) = Inr n"
  shows "optimizeImage codec w p options =
     (\<lparr> inputPath = p, outputPath = compute_outputPath p options, originalSize = s,
         optimizedSize = n, reduction = rounded_reduction s n, success = True, error = None \<rparr>,
      if should_delete_original p options
      then (w1(fs_key (compute_outputPath p options) \<mapsto> RegularFile n))(fs_key p := None)
      else w1(fs_key (compute_outputPath p options) \<mapsto> RegularFile n))"
proof -
  let ?out = "compute_outputPath p options"
  let ?w2 = "w1(fs_key ?out \<mapsto> RegularFile n)"
  from assms(1) have p: "p \<noteq> []" and wk: "w (fs_key p) = Some (RegularFile s)"
    by (auto simp: fs_lookup_def split: if_splits)
  have acc: "fs_access w p = Inr ()" and st: "fs_stat_size w p = Inr s"
    using assms(1) by (simp_all add: fs_access_def fs_stat_size_def node_size_def)
  have w1k: "w1 (fs_key p) = Some (RegularFile s)"
    using assms(2) wk by (auto split: option.splits intro: fs_mkdir_recursive_preserves)
  have sh: "sharp_toFile codec w1 p
      (select_encoder (format_or_default options) (quality_or_default options)) ?out = Inr ?w2"
    by (simp add: sharp_toFile_def assms(3))
  have st2: "fs_stat_size ?w2 ?out = Inr n"
    by (simp add: fs_stat_size_def fs_lookup_def compute_outputPath_nonempty node_size_def)
  have "\<exists>s'. fs_lookup ?w2 p = Some (RegularFile s')"
    using w1k p by (simp add: fs_lookup_def)
  then have un: "fs_unlink ?w2 p = Inr (?w2(fs_key p := None))"
    by (auto simp: fs_unlink_def)
  show ?thesis
    by (simp add: optimizeImage_def optimizeImage_try_def acc st assms(2) sh st2 un Let_def)
qed

lemma optimizeImage_success_fst:
  assumes "fs_lookup w p = Some (RegularFile s)"
    and "\<forall>d. truthy_outputDir options = Some d \<longrightarrow> \<not> isl (fs_mkdir_recursive w d)"
    and "\<forall>w1 enc out. codec w1 p enc out = Inr n"
  shows "fst (optimizeImage codec w p options) =
     \<lparr> inputPath = p, outputPath = compute_outputPath p options, originalSize = s,
       optimizedSize = n, reduction = rounded_reduction s n, success = True, error = None \<rparr>"
proof -
  from assms(2) obtain w1 where
    "(case truthy_outputDir options of Some d \<Rightarrow> fs_mkdir_recursive w d | None \<Rightarrow> Inr w) = Inr w1"
  proof (cases "truthy_outputDir options")
    case None
    then show ?thesis using that by simp
  next
    case (Some d)
    with assms(2) have "\<not> isl (fs_mkdir_recursive w d)" by simp
    then obtain w1 where "fs_mkdir_recursive w d = Inr w1"
      by (cases "fs_mkdir_recursive w d") simp_all
    with Some show ?thesis using that by simp
  qed
  from optimizeImage_success_eq[OF assms(1) this] assms(3) show ?thesis by simp
qed

lemma optimizeImage_missing:
  "fs_lookup w p = None \<Longrightarrow> optimizeImage codec w p options = (failure_result p (enoent ''access'' p), w)"
  by (simp add: optimizeImage_def optimizeImage_try_def fs_access_def)

text \<open>The examples: a conversion that succeeds and a path that does not exist.\<close>

lemma example_a_result:
  "fst (optimizeImage example_codec example_world ''/img/a.png'' default_options) =
     \<lparr> inputPath = ''/img/a.png'', outputPath = ''/img/a.webp'', originalSize = 1000,
       optimizedSize = 400, reduction = rounded_reduction 1000 400, success = True,
       error = None \<rparr>"
proof -
  have 1: "fs_lookup example_world ''/img/a.png'' = Some (RegularFile 1000)" by code_simp
  have 2: "\<forall>d. truthy_outputDir default_options = Some d \<longrightarrow>
       \<not> isl (fs_mkdir_recursive example_world d)"
    by (simp add: truthy_outputDir_def default_options_def)
  have 3: "\<forall>w1 enc out. example_codec w1 ''/img/a.png'' enc out = Inr 400"
    by (simp add: example_codec_def)
  have 4: "compute_outputPath ''/img/a.png'' default_options = ''/img/a.webp''" by code_simp
  show ?thesis
    using optimizeImage_success_fst[of example_world "''/img/a.png''" 1000 default_options
        example_codec 400] 1 2 3 4
    by simp
qed

lemma example_b_result:
  "fst (optimizeImage example_codec example_world ''/img/b.png'' default_options) =
     failure_result ''/img/b.png'' (enoent ''access'' ''/img/b.png'')"
proof -
  have "fs_lookup example_world ''/img/b.png'' = None" by code_simp
  then show ?thesis by (simp add: optimizeImage_missing)
qed

lemma failure_result_shape:
  "failure_shape (failure_result p e) \<and> \<not> success_shape (failure_result p e)"
  by (simp add: failure_shape_def success_shape_def failure_result_def)

lemma optimizeImage_inputPath: "inputPath (fst (optimizeImage codec w p options)) = p"
  using optimizeImage_cases[of codec w p options]
  by (auto simp: failure_result_def dest: optimizeImage_try_Inr)

text \<open>
  C1. \<^verbatim>\<open>optimizeImage\<close> returns a result for every input path, options, codec and file
  system (it is a total function: nothing is raised past it), and the result has exactly
  one of two shapes: success, with a non-empty output path and no error field, or
  failure, with the error field present, an empty output path, both sizes 0 and reduction
  0. A source that does not exist and a codec that throws both give the failure shape.
\<close>

theorem optimizeImage_result_shape:
  "success_shape (fst (optimizeImage codec w p options))
     \<noteq> failure_shape (fst (optimizeImage codec w p options))
   \<and> inputPath (fst (optimizeImage codec w p options)) = p
   \<and> (\<not> path_exists w p \<longrightarrow> failure_shape (fst (optimizeImage codec w p options)))
   \<and> ((\<forall>w1 enc out. \<exists>e. codec w1 p enc out = Inl e) \<longrightarrow>
        failure_shape (fst (optimizeImage codec w p options)))"
proof -
  consider (ok) r w' where "optimizeImage_try codec w p options = Inr (r, w')"
      "optimizeImage codec w p options = (r, w')"
    | (fail) e w' where "optimizeImage_try codec w p options = Inl (e, w')"
      "optimizeImage codec w p options = (failure_result p e, w')"
    using optimizeImage_cases by blast
  then show ?thesis
  proof cases
    case ok
    from optimizeImage_try_Inr[OF ok(1)]
    have r: "success r" "error r = None" "inputPath r = p" "outputPath r \<noteq> []"
      by (simp_all add: compute_outputPath_nonempty)
    have ex: "path_exists w p"
      using ok(1)
      by (auto simp: optimizeImage_try_def fs_access_def path_exists_def
          split: sum.splits option.splits)
    have cod: "\<exists>w1 enc out n. codec w1 p enc out = Inr n"
      using optimizeImage_try_steps[OF ok(1)] by blast
    have "\<not> (\<forall>w1 enc out. \<exists>e. codec w1 p enc out = Inl e)"
    proof
      assume a: "\<forall>w1 enc out. \<exists>e. codec w1 p enc out = Inl e"
      from cod obtain w1 enc out n where "codec w1 p enc out = Inr n" by blast
      with a show False by (metis sum.distinct(1))
    qed
    with r ex show ?thesis
      by (simp add: ok(2) success_shape_def failure_shape_def)
  next
    case fail
    then show ?thesis using failure_result_shape[of p e]
      by (simp add: failure_result_def)
  qed
qed

theorem optimizeImage_result_shape_witness:
  "failure_shape (fst (optimizeImage example_codec example_world ''/img/b.png'' default_options))
   \<and> failure_shape (fst (optimizeImage rejecting_codec example_world ''/img/a.png'' default_options))"
proof -
  have h1: "\<not> path_exists example_world ''/img/b.png''"
    by code_simp
  have h2: "\<forall>w1 enc out. \<exists>e. rejecting_codec w1 ''/img/a.png'' enc out = Inl e"
    by (simp add: rejecting_codec_def)
  show ?thesis
    using optimizeImage_result_shape[of example_codec example_world "''/img/b.png''" default_options]
      optimizeImage_result_shape[of rejecting_codec example_world "''/img/a.png''" default_options]
      h1 h2
    by blast
qed

section \<open>The batch orchestrator\<close>

lemma optimizeBatch_loop_acc:
  "optimizeBatch_loop codec options ps acc w =
     (acc @ fst (optimizeBatch_loop codec options ps [] w), snd (optimizeBatch_loop codec options ps [] w))"
proof (induction ps arbitrary: acc w)
  case Nil
  show ?case by simp
next
  case (Cons p ps)
  obtain r w1 where step: "optimizeImage codec w p options = (r, w1)"
    by (cases "optimizeImage codec w p options")
  show ?case
    using Cons.IH[of "acc @ [r]" w1] Cons.IH[of "[r]" w1] by (simp add: step)
qed

lemma optimizeBatch_Nil: "optimizeBatch codec w [] options = ([], w)"
  by (simp add: optimizeBatch_def)

lemma optimizeBatch_Cons:
  "optimizeBatch codec w (p # ps) options =
     (fst (optimizeImage codec w p options) #
        fst (optimizeBatch codec (snd (optimizeImage codec w p options)) ps options),
      snd (optimizeBatch codec (snd (optimizeImage codec w p options)) ps options))"
proof -
  obtain r w1 where step: "optimizeImage codec w p options = (r, w1)"
    by (cases "optimizeImage codec w p options")
  show ?thesis
    using optimizeBatch_loop_acc[of codec options ps "[r]" w1]
    by (simp add: optimizeBatch_def step)
qed

lemma optimizeBatch_length: "length (fst (optimizeBatch codec w ps options)) = length ps"
  by (induction ps arbitrary: w) (simp_all add: optimizeBatch_Nil optimizeBatch_Cons)

lemma optimizeBatch_nth:
  "i < length ps \<Longrightarrow>
     fst (optimizeBatch codec w ps options) ! i =
       fst (optimizeImage codec (snd (optimizeBatch codec w (take i ps) options)) (ps ! i) options)"
proof (induction ps arbitrary: w i)
  case Nil
  then show ?case by simp
next
  case (Cons p ps)
  show ?case
  proof (cases i)
    case 0
    then show ?thesis by (simp add: optimizeBatch_Cons optimizeBatch_Nil)
  next
    case (Suc j)
    with Cons.prems have "j < length ps" by simp
    from Cons.IH[OF this] show ?thesis
      by (simp add: Suc optimizeBatch_Cons)
  qed
qed

text \<open>
  C2. \<^verbatim>\<open>optimizeBatch\<close> returns as many results as it was given paths; the \<open>i\<close>-th result
  is what \<^verbatim>\<open>optimizeImage\<close> returns on the \<open>i\<close>-th path, run on the file system the first
  \<open>i\<close> items left behind, and it carries that path. A failing item changes nothing of
  this: the loop has no exit but the end of the list.
\<close>

theorem optimizeBatch_one_result_per_input:
  "length (fst (optimizeBatch codec w inputPaths options)) = length inputPaths \<and>
   (\<forall>i < length inputPaths.
      fst (optimizeBatch codec w inputPaths options) ! i =
        fst (optimizeImage codec (snd (optimizeBatch codec w (take i inputPaths) options))
               (inputPaths ! i) options)
      \<and> inputPath (fst (optimizeBatch codec w inputPaths options) ! i) = inputPaths ! i)"
  using optimizeBatch_length[of codec w inputPaths options] optimizeBatch_nth[of _ inputPaths codec w options]
  by (simp add: optimizeImage_inputPath)

theorem optimizeBatch_one_result_per_input_witness:
  "length (fst (optimizeBatch example_codec example_world [''/img/b.png'', ''/img/a.png'']
       default_options)) = 2
   \<and> inputPath (fst (optimizeBatch example_codec example_world [''/img/b.png'', ''/img/a.png'']
       default_options) ! 1) = ''/img/a.png''"
proof -
  let ?ps = "[''/img/b.png'', ''/img/a.png'']"
  let ?rs = "fst (optimizeBatch example_codec example_world ?ps default_options)"
  have h: "(1::nat) < length ?ps" by simp
  from optimizeBatch_one_result_per_input[of example_codec example_world ?ps default_options]
  have len: "length ?rs = length ?ps"
    and all: "\<forall>i < length ?ps. inputPath (?rs ! i) = ?ps ! i"
    by blast+
  from all h have "inputPath (?rs ! 1) = ?ps ! 1" by blast
  with len show ?thesis by simp
qed

section \<open>The PNG compression level\<close>

lemma round_half_up_mono: "x \<le> y \<Longrightarrow> round_half_up x \<le> round_half_up y"
  by (simp add: round_half_up_def floor_mono)

lemma compressionLevel_Num:
  "compressionLevel (Num q) = Num (of_int (round_half_up ((100 - q) / (1111 / 100))))"
  by (simp add: compressionLevel_def)

lemma png_compressionLevel_Num:
  "png_compressionLevel (Num q) =
     Num (of_int (min 9 (max 0 (round_half_up ((100 - q) / (1111 / 100))))))"
  by (simp add: png_compressionLevel_def compressionLevel_Num min_def max_def)

lemma level_in_range:
  assumes "0 \<le> q" "q \<le> 100"
  shows "0 \<le> round_half_up ((100 - q) / (1111 / 100)) \<and> round_half_up ((100 - q) / (1111 / 100)) \<le> 9"
proof -
  have "round_half_up 0 \<le> round_half_up ((100 - q) / (1111 / 100))"
    using assms by (intro round_half_up_mono) simp
  moreover have "round_half_up ((100 - q) / (1111 / 100)) \<le> round_half_up (100 / (1111 / 100))"
    using assms by (intro round_half_up_mono) (simp add: divide_right_mono)
  moreover have "round_half_up 0 = 0" by (simp add: round_half_up_def floor_eq_iff)
  moreover have "round_half_up (100 / (1111 / 100)) = 9" by (simp add: round_half_up_def floor_eq_iff)
  ultimately show ?thesis by simp
qed


text \<open>
  The compression level is computed in exact arithmetic where the program computes in
  doubles. For a whole-number quality the two agree: \<open>(100 - quality) / 11.11\<close> is never within
  \<open>1/2222\<close> of a rounding tie, so any value that close to it rounds to the same integer.
\<close>

lemma rounding_is_stable:
  fixes k :: int and y :: rat
  assumes "\<bar>y - of_int k / (1111 / 100)\<bar> < 1 / 2222"
  shows "round_half_up y = round_half_up (of_int k / (1111 / 100))"
proof -
  define a where "a = 200 * k + 1111"
  define n where "n = a div 2222"
  define r where "r = a mod 2222"
  have a_eq: "a = 2222 * n + r" by (simp add: n_def r_def)
  have "odd a" by (simp add: a_def)
  then have "odd r" using a_eq by simp
  moreover have "0 \<le> r" "r < 2222" by (simp_all add: r_def)
  ultimately have r: "1 \<le> r" "r \<le> 2221"
    by (cases "r = 0"; cases "r = 2221"; simp; presburger)+
  have x: "of_int k / (1111 / 100) + 1 / 2 = (of_int a :: rat) / 2222"
    by (simp add: a_def field_simps)
  have xn: "(of_int a :: rat) / 2222 = of_int n + of_int r / 2222"
    by (simp add: a_eq field_simps)
  have rr: "(1::rat) \<le> of_int r" "(of_int r :: rat) \<le> 2221"
    using r by linarith+
  have lo: "(of_int n :: rat) \<le> of_int k / (1111 / 100) + 1 / 2 - 1 / 2222"
    using x xn rr by linarith
  have hi: "of_int k / (1111 / 100) + 1 / 2 + 1 / 2222 \<le> (of_int n :: rat) + 1"
    using x xn rr by linarith
  have y1: "of_int k / (1111 / 100) - 1 / 2222 < y" and y2: "y < of_int k / (1111 / 100) + 1 / 2222"
    using assms by linarith+
  have "\<lfloor>of_int k / (1111 / 100) + 1 / 2 :: rat\<rfloor> = n"
    by (rule floor_unique) (use lo hi in linarith)+
  moreover have "\<lfloor>y + 1 / 2\<rfloor> = n"
    by (rule floor_unique) (use lo hi y1 y2 in linarith)+
  ultimately show ?thesis by (simp add: round_half_up_def)
qed


text \<open>
  C6. For the png format the encoder receives the compression level
  \<open>min 9 (max 0 (round ((100 - quality) / 11.11)))\<close>: an integer between 0 and 9 for
  every finite quality; for a quality between 0 and 100 the rounded value is already in
  range; quality 100 gives level 0 and quality 0 gives level 9. The last conjunct says
  that this level is what the codec is called with.
\<close>

theorem png_quality_to_compressionLevel:
  "select_encoder ''png'' (Num q) =
     PngEncoder (Num (of_int (min 9 (max 0 (round_half_up ((100 - q) / (1111 / 100)))))))
   \<and> (\<exists>l. 0 \<le> l \<and> l \<le> 9 \<and> png_compressionLevel (Num q) = Num (of_int l))
   \<and> (0 \<le> q \<and> q \<le> 100 \<longrightarrow>
        png_compressionLevel (Num q) = Num (of_int (round_half_up ((100 - q) / (1111 / 100)))))
   \<and> png_compressionLevel (Num 100) = Num 0
   \<and> png_compressionLevel (Num 0) = Num 9
   \<and> optimizeImage codec w p (options\<lparr>format := Some ''png'', quality := Some (Num q)\<rparr>) =
       optimizeImage (\<lambda>w' i enc out. codec w' i (PngEncoder (png_compressionLevel (Num q))) out) w p
         (options\<lparr>format := Some ''png'', quality := Some (Num q)\<rparr>)"
proof -
  let ?l = "round_half_up ((100 - q) / (1111 / 100))"
  have a: "select_encoder ''png'' (Num q) = PngEncoder (Num (of_int (min 9 (max 0 ?l))))"
    by (simp add: select_encoder_def png_compressionLevel_Num)
  have b: "\<exists>l. 0 \<le> l \<and> l \<le> 9 \<and> png_compressionLevel (Num q) = Num (of_int l)"
    by (rule exI[of _ "min 9 (max 0 ?l)"]) (simp add: png_compressionLevel_Num)
  have c: "0 \<le> q \<and> q \<le> 100 \<longrightarrow> png_compressionLevel (Num q) = Num (of_int ?l)"
    using level_in_range[of q] by (auto simp: png_compressionLevel_Num)
  have d: "png_compressionLevel (Num 100) = Num 0"
    by (simp add: png_compressionLevel_Num round_half_up_def floor_eq_iff)
  have e: "png_compressionLevel (Num 0) = Num 9"
    using level_in_range[of 0] 
    by (simp add: png_compressionLevel_Num round_half_up_def floor_eq_iff)
  have f: "optimizeImage codec w p (options\<lparr>format := Some ''png'', quality := Some (Num q)\<rparr>) =
       optimizeImage (\<lambda>w' i enc out. codec w' i (PngEncoder (png_compressionLevel (Num q))) out) w p
         (options\<lparr>format := Some ''png'', quality := Some (Num q)\<rparr>)"
  proof -
    let ?o = "options\<lparr>format := Some ''png'', quality := Some (Num q)\<rparr>"
    let ?c = "\<lambda>w' i enc out. codec w' i (PngEncoder (png_compressionLevel (Num q))) out"
    have enc: "select_encoder (format_or_default ?o) (quality_or_default ?o) =
        PngEncoder (png_compressionLevel (Num q))"
      by (simp add: select_encoder_def format_or_default_def quality_or_default_def)
    have sh: "\<And>w1 out. sharp_toFile codec w1 p (PngEncoder (png_compressionLevel (Num q))) out =
        sharp_toFile ?c w1 p (PngEncoder (png_compressionLevel (Num q))) out"
      by (simp add: sharp_toFile_def)
    have "optimizeImage_try codec w p ?o = optimizeImage_try ?c w p ?o"
      unfolding optimizeImage_try_def enc sh ..
    then show ?thesis by (simp add: optimizeImage_def)
  qed
  from a b c d e f show ?thesis by blast
qed

theorem png_quality_to_compressionLevel_witness:
  "png_compressionLevel (Num 75) = Num 2"
proof -
  have h: "(0::rat) \<le> 75 \<and> (75::rat) \<le> 100" by simp
  have "round_half_up ((100 - 75) / (1111 / 100)) = 2"
    by (simp add: round_half_up_def floor_eq_iff)
  with h png_quality_to_compressionLevel[of 75] show ?thesis by simp
qed

section \<open>Rounding to a double\<close>

text \<open>
  \<open>fl\<close> rounds to the nearest number \<open>m * 2 ^ (e - 52)\<close> with \<open>2 ^ 52 \<le> \<bar>m\<bar> \<le> 2 ^ 53\<close>,
  where \<open>2 ^ e \<le> \<bar>x\<bar> < 2 ^ (e + 1)\<close>; \<open>fl_eval\<close> computes it from \<open>e\<close> and \<open>m\<close>, and
  \<open>fl_error\<close> bounds the relative error by \<open>2 ^ -53\<close>.
\<close>

lemma round_half_even_close: "\<bar>of_int (round_half_even x) - x\<bar> \<le> 1 / 2"
proof -
  have "of_int \<lfloor>x\<rfloor> \<le> x" "x < of_int \<lfloor>x\<rfloor> + 1" by linarith+
  then show ?thesis
    unfolding round_half_even_def Let_def by (auto simp: abs_le_iff)
qed

lemma bitlen_lower: "0 < a \<Longrightarrow> (2::rat) powi (bitlen a - 1) \<le> of_int a"
proof -
  assume a: "0 < a"
  then have b: "1 \<le> bitlen a" by (auto simp: bitlen_alt_def)
  from bitlen_bounds[OF a] have "(2::int) ^ nat (bitlen a - 1) \<le> a" by simp
  then have "(of_int ((2::int) ^ nat (bitlen a - 1)) :: rat) \<le> of_int a"
    by (simp only: of_int_le_iff)
  moreover have "(2::rat) powi (bitlen a - 1) = 2 ^ nat (bitlen a - 1)"
    using b by (simp add: power_int_def)
  ultimately show ?thesis by simp
qed

lemma bitlen_upper: "0 < a \<Longrightarrow> of_int a < (2::rat) powi (bitlen a)"
proof -
  assume a: "0 < a"
  have b: "0 \<le> bitlen a" by (rule bitlen_nonneg)
  from bitlen_bounds[OF a] have "a < (2::int) ^ nat (bitlen a)" by simp
  then have "(of_int a :: rat) < of_int ((2::int) ^ nat (bitlen a))"
    by (simp only: of_int_less_iff)
  moreover have "(2::rat) powi (bitlen a) = 2 ^ nat (bitlen a)"
    using b by (simp add: power_int_def)
  ultimately show ?thesis by simp
qed

lemma binary64_exponent_bounds:
  assumes "x \<noteq> 0"
  shows "2 powi (binary64_exponent x) \<le> \<bar>x\<bar> \<and> \<bar>x\<bar> < 2 powi (binary64_exponent x + 1)"
proof -
  obtain a b where q: "quotient_of \<bar>x\<bar> = (a, b)" by (cases "quotient_of \<bar>x\<bar>")
  then have b: "0 < b" by (rule quotient_of_denom_pos)
  from q have x: "\<bar>x\<bar> = of_int a / of_int b" by (rule quotient_of_div)
  from assms have "0 < \<bar>x\<bar>" by simp
  with x b have a: "0 < a" by (simp add: zero_less_divide_iff)
  let ?e0 = "bitlen a - bitlen b"
  have lo: "(2::rat) powi (?e0 - 1) \<le> \<bar>x\<bar>"
  proof -
    have "(2::rat) powi (?e0 - 1) = 2 powi (bitlen a - 1) / 2 powi (bitlen b)"
      by (simp add: power_int_diff)
    also have "\<dots> \<le> of_int a / 2 powi (bitlen b)"
      using bitlen_lower[OF a] by (simp add: divide_right_mono)
    also have "\<dots> \<le> of_int a / of_int b"
      using bitlen_upper[OF b] a b by (simp add: frac_le)
    finally show ?thesis by (simp add: x)
  qed
  have hi: "\<bar>x\<bar> < (2::rat) powi (?e0 + 1)"
  proof -
    have pb: "(0::rat) < 2 powi (bitlen b - 1)" by simp
    have "of_int a / of_int b \<le> of_int a / (2::rat) powi (bitlen b - 1)"
      using bitlen_lower[OF b] a pb by (simp add: frac_le)
    also have "\<dots> < 2 powi (bitlen a) / (2::rat) powi (bitlen b - 1)"
      using bitlen_upper[OF a] pb by (simp add: divide_strict_right_mono)
    also have "\<dots> = 2 powi (?e0 + 1)"
      by (simp add: power_int_diff power_int_add)
    finally show ?thesis by (simp add: x)
  qed
  show ?thesis
  proof (cases "2 powi ?e0 \<le> \<bar>x\<bar>")
    case True
    then have "binary64_exponent x = ?e0" by (simp add: binary64_exponent_def q)
    with True hi show ?thesis by simp
  next
    case False
    then have "binary64_exponent x = ?e0 - 1" by (simp add: binary64_exponent_def q)
    with False lo show ?thesis by simp
  qed
qed

lemma power_int_exponent_unique:
  fixes y :: rat
  assumes "2 powi e \<le> y" "y < 2 powi (e + 1)" "2 powi e' \<le> y" "y < 2 powi (e' + 1)"
  shows "e = e'"
proof -
  have a: "(2::rat) powi e < 2 powi (e' + 1)" using assms by linarith
  have "e < e' + 1"
  proof (rule ccontr)
    assume "\<not> e < e' + 1"
    then have "e' + 1 \<le> e" by simp
    then have "(2::rat) powi (e' + 1) \<le> 2 powi e" by (intro power_int_increasing) simp_all
    with a show False by linarith
  qed
  moreover
  have b: "(2::rat) powi e' < 2 powi (e + 1)" using assms by linarith
  have "e' < e + 1"
  proof (rule ccontr)
    assume "\<not> e' < e + 1"
    then have "e + 1 \<le> e'" by simp
    then have "(2::rat) powi (e + 1) \<le> 2 powi e'" by (intro power_int_increasing) simp_all
    with b show False by linarith
  qed
  ultimately show ?thesis by simp
qed

lemma round_half_even_near:
  assumes "\<bar>y - of_int m\<bar> < 1 / 2"
  shows "round_half_even y = m"
proof -
  from assms have 1: "of_int m - 1 / 2 < y" "y < of_int m + 1 / 2"
    by linarith+
  show ?thesis
  proof (cases "of_int m \<le> y")
    case True
    with 1 have f: "\<lfloor>y\<rfloor> = m" by (intro floor_unique) linarith+
    have "y - of_int m < 1 / 2" using 1 by linarith
    then show ?thesis unfolding round_half_even_def Let_def f by simp
  next
    case False
    with 1 have f: "\<lfloor>y\<rfloor> = m - 1" by (intro floor_unique) (simp, linarith+)
    have "1 / 2 < y - of_int (m - 1)" using 1 by simp
    moreover then have "\<not> y - of_int (m - 1) < 1 / 2" by linarith
    ultimately show ?thesis unfolding round_half_even_def Let_def f by simp
  qed
qed

lemma fl_eval:
  assumes "2 powi e \<le> \<bar>x\<bar>" "\<bar>x\<bar> < 2 powi (e + 1)"
    and "\<bar>x / 2 powi (e - 52) - of_int m\<bar> < 1 / 2"
  shows "fl x = of_int m * 2 powi (e - 52)"
proof -
  have x: "x \<noteq> 0"
  proof
    assume "x = 0"
    with assms(1) have "(2::rat) powi e \<le> 0" by simp
    moreover have "(0::rat) < 2 powi e" by simp
    ultimately show False by linarith
  qed
  from binary64_exponent_bounds[OF x] assms(1,2)
  have e: "binary64_exponent x = e"
    using power_int_exponent_unique[of "binary64_exponent x" "\<bar>x\<bar>" e] by blast
  have "round_half_even (x / 2 powi (e - 52)) = m"
    by (rule round_half_even_near[OF assms(3)])
  with x e show ?thesis by (simp add: fl_def Let_def)
qed

lemma fl_error: "\<bar>fl x - x\<bar> \<le> \<bar>x\<bar> / 2 ^ 53"
proof (cases "x = 0")
  case True
  then show ?thesis by (simp add: fl_def)
next
  case False
  let ?e = "binary64_exponent x"
  let ?q = "(2::rat) powi (?e - 52)"
  have q: "0 < ?q" by simp
  have "\<bar>fl x - x\<bar> = \<bar>of_int (round_half_even (x / ?q)) - x / ?q\<bar> * ?q"
  proof -
    have "fl x - x = (of_int (round_half_even (x / ?q)) - x / ?q) * ?q"
      using False q by (simp add: fl_def Let_def field_simps)
    then show ?thesis using q by (simp add: abs_mult)
  qed
  also have "\<dots> \<le> 1 / 2 * ?q"
    using round_half_even_close[of "x / ?q"] q by (intro mult_right_mono) simp_all
  also have "1 / 2 * ?q = 2 powi ?e / 2 ^ 53"
    by (simp add: power_int_diff)
  also have "\<dots> \<le> \<bar>x\<bar> / 2 ^ 53"
    using binary64_exponent_bounds[OF False] by (simp add: divide_right_mono)
  finally show ?thesis .
qed

lemma fl_negative: "y < 0 \<Longrightarrow> fl y < 0"
proof -
  assume y: "y < 0"
  have h: "\<bar>y\<bar> / 2 ^ 53 \<le> \<bar>y\<bar> / 2"
    by (intro divide_left_mono) simp_all
  have "\<bar>fl y - y\<bar> \<le> \<bar>y\<bar> / 2 ^ 53" by (rule fl_error)
  with h y show ?thesis by linarith
qed

lemma fl_step:
  assumes "\<bar>y' - y\<bar> \<le> \<epsilon> * \<bar>y\<bar>" "0 \<le> \<epsilon>" "\<epsilon> \<le> 1"
  shows "\<bar>fl y' - y\<bar> \<le> (\<epsilon> + 2 / 2 ^ 53) * \<bar>y\<bar>"
proof -
  have "\<bar>y'\<bar> \<le> \<bar>y\<bar> + \<bar>y' - y\<bar>" by linarith
  also have "\<dots> \<le> \<bar>y\<bar> + \<epsilon> * \<bar>y\<bar>" using assms(1) by simp
  also have "\<dots> \<le> \<bar>y\<bar> + 1 * \<bar>y\<bar>"
    using assms(3) by (intro add_left_mono mult_right_mono) simp_all
  finally have y': "\<bar>y'\<bar> \<le> 2 * \<bar>y\<bar>" by simp
  have "\<bar>fl y' - y\<bar> \<le> \<bar>fl y' - y'\<bar> + \<bar>y' - y\<bar>" by linarith
  also have "\<dots> \<le> \<bar>y'\<bar> / 2 ^ 53 + \<epsilon> * \<bar>y\<bar>"
    using fl_error[of y'] assms(1) by linarith
  also have "\<dots> \<le> 2 * \<bar>y\<bar> / 2 ^ 53 + \<epsilon> * \<bar>y\<bar>"
    using y' by (simp add: divide_right_mono)
  finally show ?thesis by (simp add: algebra_simps)
qed

lemma scaled_error:
  fixes c :: rat
  assumes "\<bar>y' - y\<bar> \<le> \<epsilon> * \<bar>y\<bar>"
  shows "\<bar>y' * c - y * c\<bar> \<le> \<epsilon> * \<bar>y * c\<bar>"
proof -
  have "\<bar>y' * c - y * c\<bar> = \<bar>y' - y\<bar> * \<bar>c\<bar>"
    by (simp add: abs_mult algebra_simps flip: abs_mult)
  also have "\<dots> \<le> \<epsilon> * \<bar>y\<bar> * \<bar>c\<bar>"
    using assms by (intro mult_right_mono) simp_all
  finally show ?thesis by (simp add: abs_mult algebra_simps)
qed

section \<open>The reduction percentage\<close>

lemma round_half_up_close: "\<bar>of_int (round_half_up z) - z\<bar> \<le> 1 / 2"
proof -
  have "of_int \<lfloor>z + 1 / 2\<rfloor> \<le> z + 1 / 2" "z + 1 / 2 < of_int \<lfloor>z + 1 / 2\<rfloor> + 1"
    by linarith+
  then show ?thesis unfolding round_half_up_def by linarith
qed

lemma abs_hundredth:
  fixes K x :: rat
  shows "\<bar>K - x * 100\<bar> / 100 = \<bar>K / 100 - x\<bar>"
proof -
  have "\<bar>K / 100 - x\<bar> = \<bar>(K - x * 100) / 100\<bar>" by (simp add: diff_divide_distrib)
  also have "\<dots> = \<bar>K - x * 100\<bar> / \<bar>100\<bar>" by (rule abs_divide)
  finally show ?thesis by simp
qed

lemma hundredth_bound:
  fixes x :: rat
  shows "(1 / 2 + \<bar>x * 100\<bar> / 2 ^ 50) / 100 = 1 / 200 + \<bar>x\<bar> / 2 ^ 50"
  by (simp add: abs_mult add_divide_distrib)

lemma rounded_reduction_pos:
  "orig \<noteq> 0 \<Longrightarrow> rounded_reduction orig opt =
     Num (fl (of_int (round_half_up
       (fl (fl (fl (fl (of_nat orig - of_nat opt) / of_nat orig) * 100) * 100))) / 100))"
  by (simp add: rounded_reduction_def reduction_percent_def double_divide_def)

lemma rounded_reduction_zero:
  "rounded_reduction 0 opt = (if opt = 0 then NaN else NegInf)"
proof (cases "opt = 0")
  case True
  then show ?thesis
    by (simp add: rounded_reduction_def reduction_percent_def double_divide_def fl_def)
next
  case False
  then have "fl (- of_nat opt) < 0" by (intro fl_negative) simp
  then have "double_divide (fl (- of_nat opt)) 0 = NegInf"
    by (simp add: double_divide_def)
  with False show ?thesis
    by (simp add: rounded_reduction_def reduction_percent_def)
qed

lemma reduction_chain_error:
  fixes a b :: rat
  shows "\<bar>fl (fl (fl (fl a / b) * 100) * 100) - a / b * 100 * 100\<bar>
           \<le> \<bar>a / b * 100 * 100\<bar> / 2 ^ 50"
proof -
  have 0: "\<bar>fl a - a\<bar> \<le> (2 / 2 ^ 53) * \<bar>a\<bar>"
    using fl_step[of a a 0] by simp
  have "\<bar>fl a * (1 / b) - a * (1 / b)\<bar> \<le> (2 / 2 ^ 53) * \<bar>a * (1 / b)\<bar>"
    by (rule scaled_error[OF 0])
  then have 1: "\<bar>fl a / b - a / b\<bar> \<le> (2 / 2 ^ 53) * \<bar>a / b\<bar>" by simp
  have 2: "\<bar>fl (fl a / b) - a / b\<bar> \<le> (4 / 2 ^ 53) * \<bar>a / b\<bar>"
    using fl_step[OF 1] by simp
  have 3: "\<bar>fl (fl (fl a / b) * 100) - a / b * 100\<bar> \<le> (6 / 2 ^ 53) * \<bar>a / b * 100\<bar>"
    using fl_step[OF scaled_error[OF 2, of 100]] by simp
  have 4: "\<bar>fl (fl (fl (fl a / b) * 100) * 100) - a / b * 100 * 100\<bar>
      \<le> (8 / 2 ^ 53) * \<bar>a / b * 100 * 100\<bar>"
    using fl_step[OF scaled_error[OF 3, of 100]] by simp
  then show ?thesis by simp
qed

lemma rounded_reduction_accuracy:
  assumes "orig \<noteq> 0"
  shows "\<exists>k::int. rounded_reduction orig opt = Num (fl (of_int k / 100))
     \<and> \<bar>of_int k / 100 - (of_nat orig - of_nat opt) / of_nat orig * 100\<bar>
         \<le> (1 / 200 + \<bar>(of_nat orig - of_nat opt) / of_nat orig * 100\<bar> / 2 ^ 50 :: rat)"
proof -
  let ?a = "(of_nat orig - of_nat opt) :: rat" and ?b = "of_nat orig :: rat"
  let ?d = "fl (fl (fl (fl ?a / ?b) * 100) * 100)"
  let ?k = "round_half_up ?d"
  let ?x = "?a / ?b * 100"
  have e: "\<bar>?d - ?x * 100\<bar> \<le> \<bar>?x * 100\<bar> / 2 ^ 50"
    by (rule reduction_chain_error)
  have r: "\<bar>of_int ?k - ?d\<bar> \<le> 1 / 2" by (rule round_half_up_close)
  have "\<bar>of_int ?k - ?x * 100\<bar> \<le> 1 / 2 + \<bar>?x * 100\<bar> / 2 ^ 50"
    using e r by linarith
  then have "\<bar>of_int ?k - ?x * 100\<bar> / 100 \<le> (1 / 2 + \<bar>?x * 100\<bar> / 2 ^ 50) / 100"
    by (simp add: divide_right_mono)
  moreover have "\<bar>of_int ?k - ?x * 100\<bar> / 100 = \<bar>of_int ?k / 100 - ?x\<bar>"
    by (rule abs_hundredth)
  moreover have "(1 / 2 + \<bar>?x * 100\<bar> / 2 ^ 50) / 100 = 1 / 200 + \<bar>?x\<bar> / 2 ^ 50"
    by (rule hundredth_bound)
  ultimately have "\<bar>of_int ?k / 100 - ?x\<bar> \<le> 1 / 200 + \<bar>?x\<bar> / 2 ^ 50" by simp
  with rounded_reduction_pos[OF assms, of opt] show ?thesis by blast
qed

lemma optimizeImage_success_reduction:
  "success (fst (optimizeImage codec w p options)) \<Longrightarrow>
     reduction (fst (optimizeImage codec w p options)) =
       rounded_reduction (originalSize (fst (optimizeImage codec w p options)))
         (optimizedSize (fst (optimizeImage codec w p options)))"
  using optimizeImage_cases[of codec w p options]
  by (auto simp: failure_result_def dest: optimizeImage_try_Inr)

lemma optimizeImage_failure_reduction:
  "\<not> success (fst (optimizeImage codec w p options)) \<Longrightarrow>
     reduction (fst (optimizeImage codec w p options)) = Num 0"
  using optimizeImage_cases[of codec w p options]
  by (auto simp: failure_result_def dest: optimizeImage_try_Inr)

lemma optimizeImage_failure_originalSize:
  "\<not> success (fst (optimizeImage codec w p options)) \<Longrightarrow>
     originalSize (fst (optimizeImage codec w p options)) = 0"
  using optimizeImage_cases[of codec w p options]
  by (auto simp: failure_result_def dest: optimizeImage_try_Inr)

lemma optimizeImage_originalSize:
  "success (fst (optimizeImage codec w p options)) \<Longrightarrow>
     \<exists>n. fs_lookup w p = Some n
       \<and> originalSize (fst (optimizeImage codec w p options)) = node_size n"
proof -
  assume s: "success (fst (optimizeImage codec w p options))"
  have "optimizeImage_try codec w p options
      = Inr (fst (optimizeImage codec w p options), snd (optimizeImage codec w p options))"
    by (rule optimizeImage_success_steps[OF _ s]) simp
  from optimizeImage_try_steps[OF this] show ?thesis by auto
qed

lemma codec_rejects_empty_fails:
  assumes "codec_rejects_empty_source codec" "fs_lookup w p = Some n" "node_size n = 0"
  shows "\<not> success (fst (optimizeImage codec w p options))"
proof
  assume s: "success (fst (optimizeImage codec w p options))"
  have "optimizeImage_try codec w p options
      = Inr (fst (optimizeImage codec w p options), snd (optimizeImage codec w p options))"
    by (rule optimizeImage_success_steps[OF _ s]) simp
  from optimizeImage_try_steps[OF this] obtain w1 m where
    w1: "case truthy_outputDir options of Some d \<Rightarrow> fs_mkdir_recursive w d = Inr w1 | None \<Rightarrow> w1 = w"
    and cod: "codec w1 p (select_encoder (format_or_default options) (quality_or_default options))
        (compute_outputPath p options) = Inr m"
    by blast
  from assms(2) have p: "p \<noteq> []" and wk: "w (fs_key p) = Some n"
    by (auto simp: fs_lookup_def split: if_splits)
  have "w1 (fs_key p) = Some n"
    using w1 wk by (auto split: option.splits intro: fs_mkdir_recursive_preserves)
  with p have "fs_lookup w1 p = Some n" by (simp add: fs_lookup_def)
  with assms(1,3) have "isl (codec w1 p
      (select_encoder (format_or_default options) (quality_or_default options))
      (compute_outputPath p options))"
    unfolding codec_rejects_empty_source_def by blast
  with cod show False by simp
qed

lemma size_checking_codec_rejects: "codec_rejects_empty_source size_checking_codec"
  by (simp add: codec_rejects_empty_source_def size_checking_codec_def)

text \<open>
  C3, as the code has it. Lines 75 and 89 of \<^verbatim>\<open>optimizer.ts\<close> compute
  \<open>Math.round(((original - optimized) / original) * 100 * 100) / 100\<close> in doubles, every
  operation rounded. On a success whose original size is not 0 the reduction is the double
  nearest to \<open>k / 100\<close> for an integer \<open>k\<close>, and \<open>k / 100\<close> is at most
  \<open>1 / 200 + \<bar>p\<bar> / 2 ^ 50\<close> away from the exact percentage \<open>p\<close>: it is the hundredth
  nearest to \<open>p\<close> unless \<open>p\<close> lies within \<open>\<bar>p\<bar> / 2 ^ 50\<close> of the middle between two
  hundredths. On a failure the reduction is 0. The code has no guard for an original size
  of 0; with a codec that rejects a zero-byte source such a call fails, and its reduction
  is 0.
\<close>

theorem reduction_of_result:
  assumes "r = fst (optimizeImage codec w p options)"
  shows "(success r \<and> originalSize r \<noteq> 0 \<longrightarrow>
            (\<exists>k::int. reduction r = Num (fl (of_int k / 100))
               \<and> \<bar>of_int k / 100
                    - (of_nat (originalSize r) - of_nat (optimizedSize r))
                        / of_nat (originalSize r) * 100\<bar>
                  \<le> (1 / 200
                      + \<bar>(of_nat (originalSize r) - of_nat (optimizedSize r))
                           / of_nat (originalSize r) * 100\<bar> / 2 ^ 50 :: rat)))
       \<and> (\<not> success r \<longrightarrow> reduction r = Num 0)
       \<and> (codec_rejects_empty_source codec \<and> originalSize r = 0 \<longrightarrow> reduction r = Num 0)"
proof (intro conjI impI)
  assume a: "success r \<and> originalSize r \<noteq> 0"
  then have "reduction r = rounded_reduction (originalSize r) (optimizedSize r)"
    unfolding assms by (intro optimizeImage_success_reduction) simp
  with rounded_reduction_accuracy[of "originalSize r" "optimizedSize r"] a
  show "\<exists>k::int. reduction r = Num (fl (of_int k / 100))
               \<and> \<bar>of_int k / 100
                    - (of_nat (originalSize r) - of_nat (optimizedSize r))
                        / of_nat (originalSize r) * 100\<bar>
                  \<le> (1 / 200
                      + \<bar>(of_nat (originalSize r) - of_nat (optimizedSize r))
                           / of_nat (originalSize r) * 100\<bar> / 2 ^ 50 :: rat)"
    by simp
next
  assume "\<not> success r"
  then show "reduction r = Num 0"
    unfolding assms by (rule optimizeImage_failure_reduction)
next
  assume a: "codec_rejects_empty_source codec \<and> originalSize r = 0"
  show "reduction r = Num 0"
  proof (cases "success r")
    case False
    then show ?thesis unfolding assms by (rule optimizeImage_failure_reduction)
  next
    case True
    then have s: "success (fst (optimizeImage codec w p options))" by (simp add: assms)
    from optimizeImage_originalSize[OF s] a obtain n where
      "fs_lookup w p = Some n" "node_size n = 0"
      by (auto simp: assms)
    with codec_rejects_empty_fails[of codec w p n options] a s show ?thesis by simp
  qed
qed

lemma tie_results:
  "fst (optimizeImage codec_73 tie_world ''/img/s.png'' default_options) =
     \<lparr> inputPath = ''/img/s.png'', outputPath = ''/img/s.webp'', originalSize = 160,
       optimizedSize = 73, reduction = rounded_reduction 160 73, success = True,
       error = None \<rparr>"
  "fst (optimizeImage codec_126 tie_world ''/img/t.png'' default_options) =
     \<lparr> inputPath = ''/img/t.png'', outputPath = ''/img/t.webp'', originalSize = 320,
       optimizedSize = 126, reduction = rounded_reduction 320 126, success = True,
       error = None \<rparr>"
proof -
  have 1: "fs_lookup tie_world ''/img/s.png'' = Some (RegularFile 160)"
    "fs_lookup tie_world ''/img/t.png'' = Some (RegularFile 320)" by code_simp+
  have 2: "\<forall>d. truthy_outputDir default_options = Some d \<longrightarrow>
       \<not> isl (fs_mkdir_recursive tie_world d)"
    by (simp add: truthy_outputDir_def default_options_def)
  have 3: "\<forall>w1 enc out. codec_73 w1 ''/img/s.png'' enc out = Inr 73"
    "\<forall>w1 enc out. codec_126 w1 ''/img/t.png'' enc out = Inr 126"
    by (simp_all add: codec_73_def codec_126_def)
  have 4: "compute_outputPath ''/img/s.png'' default_options = ''/img/s.webp''"
    "compute_outputPath ''/img/t.png'' default_options = ''/img/t.webp''" by code_simp+
  show "fst (optimizeImage codec_73 tie_world ''/img/s.png'' default_options) =
     \<lparr> inputPath = ''/img/s.png'', outputPath = ''/img/s.webp'', originalSize = 160,
       optimizedSize = 73, reduction = rounded_reduction 160 73, success = True,
       error = None \<rparr>"
    using optimizeImage_success_fst[of tie_world "''/img/s.png''" 160 default_options
        codec_73 73] 1 2 3 4
    by simp
  show "fst (optimizeImage codec_126 tie_world ''/img/t.png'' default_options) =
     \<lparr> inputPath = ''/img/t.png'', outputPath = ''/img/t.webp'', originalSize = 320,
       optimizedSize = 126, reduction = rounded_reduction 320 126, success = True,
       error = None \<rparr>"
    using optimizeImage_success_fst[of tie_world "''/img/t.png''" 320 default_options
        codec_126 126] 1 2 3 4
    by simp
qed

theorem reduction_of_result_witness:
  "(\<exists>k::int. reduction (fst (optimizeImage example_codec example_world ''/img/a.png''
        default_options)) = Num (fl (of_int k / 100))
      \<and> \<bar>of_int k / 100 - 60\<bar> \<le> (1 / 200 + 60 / 2 ^ 50 :: rat))
   \<and> reduction (fst (optimizeImage example_codec example_world ''/img/b.png'' default_options))
     = Num 0
   \<and> originalSize (fst (optimizeImage size_checking_codec example_world ''/img/empty.png''
        default_options)) = 0
   \<and> reduction (fst (optimizeImage size_checking_codec example_world ''/img/empty.png''
        default_options)) = Num 0"
proof -
  let ?a = "fst (optimizeImage example_codec example_world ''/img/a.png'' default_options)"
  let ?b = "fst (optimizeImage example_codec example_world ''/img/b.png'' default_options)"
  let ?e = "fst (optimizeImage size_checking_codec example_world ''/img/empty.png''
      default_options)"
  have ha: "success ?a \<and> originalSize ?a = 1000 \<and> optimizedSize ?a = 400"
    by (simp add: example_a_result)
  have hb: "\<not> success ?b" by (simp add: example_b_result failure_result_def)
  have "fs_lookup example_world ''/img/empty.png'' = Some (RegularFile 0)" by code_simp
  then have "\<not> success ?e"
    by (rule codec_rejects_empty_fails[OF size_checking_codec_rejects]) (simp add: node_size_def)
  then have he: "originalSize ?e = 0" by (rule optimizeImage_failure_originalSize)
  from reduction_of_result[OF refl, of example_codec example_world "''/img/a.png''"
      default_options] ha
  have "\<exists>k::int. reduction ?a = Num (fl (of_int k / 100))
      \<and> \<bar>of_int k / 100 - 60\<bar> \<le> (1 / 200 + 60 / 2 ^ 50 :: rat)"
    by simp
  moreover
  from reduction_of_result[OF refl, of example_codec example_world "''/img/b.png''"
      default_options] hb
  have "reduction ?b = Num 0" by blast
  moreover
  from reduction_of_result[OF refl, of size_checking_codec example_world "''/img/empty.png''"
      default_options] he size_checking_codec_rejects
  have "reduction ?e = Num 0" by blast
  ultimately show ?thesis using he by blast
qed

lemma rounded_reduction_320_126: "rounded_reduction 320 126 = Num (fl (6062 / 100))"
proof -
  have e0: "fl 194 = 194"
    using fl_eval[of 7 194 6825768185233408] by simp
  have e1: "fl (194 / 320) = 5460614548186726 / 2 ^ 53"
    using fl_eval[of "-1" "194 / 320" 5460614548186726] by simp
  have e2: "fl (5460614548186726 / 2 ^ 53 * 100) = 8532210231541759 / 2 ^ 47"
    using fl_eval[of 5 "5460614548186726 / 2 ^ 53 * 100" 8532210231541759] by simp
  have e3: "fl (8532210231541759 / 2 ^ 47 * 100) = 6665789243391999 / 2 ^ 40"
    using fl_eval[of 12 "8532210231541759 / 2 ^ 47 * 100" 6665789243391999] by simp
  have k: "round_half_up (6665789243391999 / 2 ^ 40) = 6062"
    by (simp add: round_half_up_def floor_eq_iff)
  have "rounded_reduction 320 126 = Num (fl (of_int 6062 / 100))"
    by (simp only: rounded_reduction_pos[of 320 126, simplified] e0 e1 e2 e3 k)
  then show ?thesis by simp
qed

lemma rounded_reduction_160_73: "rounded_reduction 160 73 = Num (fl (5437 / 100))"
proof -
  have e0: "fl 87 = 87"
    using fl_eval[of 6 87 6122080743456768] by simp
  have e1: "fl (87 / 160) = 4897664594765414 / 2 ^ 53"
    using fl_eval[of "-1" "87 / 160" 4897664594765414] by simp
  have e2: "fl (4897664594765414 / 2 ^ 53 * 100) = 7652600929320959 / 2 ^ 47"
    using fl_eval[of 5 "4897664594765414 / 2 ^ 53 * 100" 7652600929320959] by simp
  have e3: "fl (7652600929320959 / 2 ^ 47 * 100) = 5978594476031999 / 2 ^ 40"
    using fl_eval[of 12 "7652600929320959 / 2 ^ 47 * 100" 5978594476031999] by simp
  have k: "round_half_up (5978594476031999 / 2 ^ 40) = 5437"
    by (simp add: round_half_up_def floor_eq_iff)
  have "rounded_reduction 160 73 = Num (fl (of_int 5437 / 100))"
    by (simp only: rounded_reduction_pos[of 160 73, simplified] e0 e1 e2 e3 k)
  then show ?thesis by simp
qed

lemma doubles_of_hundredths:
  "fl (6062 / 100) = 8531506544099983 / 2 ^ 47"
  "fl (6063 / 100) = 8532913918983537 / 2 ^ 47"
  "fl (5437 / 100) = 7651897241879183 / 2 ^ 47"
  "fl (5438 / 100) = 7653304616762737 / 2 ^ 47"
  using fl_eval[of 5 "6062 / 100" 8531506544099983] fl_eval[of 5 "6063 / 100" 8532913918983537]
    fl_eval[of 5 "5437 / 100" 7651897241879183] fl_eval[of 5 "5438 / 100" 7653304616762737]
  by simp_all

text \<open>
  The specification asks for the percentage rounded to two decimal places. A source of 160
  bytes optimized to 73 bytes has the exact percentage 54.375, which rounds to 54.38 (half
  up and half to even alike); the doubles of line 75 give 54.37499999999999 and the code
  reports 54.37. Likewise 320 bytes optimized to 126 bytes: exactly 60.625, half up 60.63,
  reported 60.62.
\<close>

theorem reduction_tie_counterexample:
  "success (fst (optimizeImage codec_73 tie_world ''/img/s.png'' default_options))
   \<and> originalSize (fst (optimizeImage codec_73 tie_world ''/img/s.png'' default_options)) = 160
   \<and> optimizedSize (fst (optimizeImage codec_73 tie_world ''/img/s.png'' default_options)) = 73
   \<and> (160 - 73) / 160 * 100 = (54375 / 1000 :: rat)
   \<and> round_half_up ((160 - 73) / 160 * 100 * 100) = 5438
   \<and> round_half_even ((160 - 73) / 160 * 100 * 100) = 5438
   \<and> reduction (fst (optimizeImage codec_73 tie_world ''/img/s.png'' default_options))
       = Num (fl (5437 / 100))
   \<and> reduction (fst (optimizeImage codec_73 tie_world ''/img/s.png'' default_options))
       \<noteq> Num (fl (5438 / 100))
   \<and> success (fst (optimizeImage codec_126 tie_world ''/img/t.png'' default_options))
   \<and> originalSize (fst (optimizeImage codec_126 tie_world ''/img/t.png'' default_options)) = 320
   \<and> optimizedSize (fst (optimizeImage codec_126 tie_world ''/img/t.png'' default_options)) = 126
   \<and> round_half_up ((320 - 126) / 320 * 100 * 100) = 6063
   \<and> reduction (fst (optimizeImage codec_126 tie_world ''/img/t.png'' default_options))
       = Num (fl (6062 / 100))
   \<and> reduction (fst (optimizeImage codec_126 tie_world ''/img/t.png'' default_options))
       \<noteq> Num (fl (6063 / 100))"
proof -
  have 1: "round_half_up ((160 - 73) / 160 * 100 * 100) = 5438"
    "round_half_up ((320 - 126) / 320 * 100 * 100) = 6063"
    by (simp_all add: round_half_up_def floor_eq_iff)
  have f: "\<lfloor>10875 / 2 :: rat\<rfloor> = 5437" by (simp add: floor_eq_iff)
  have 2: "round_half_even ((160 - 73) / 160 * 100 * 100) = 5438"
    by (simp add: round_half_even_def Let_def f)
  have 3: "fl (5437 / 100) \<noteq> fl (5438 / 100)" "fl (6062 / 100) \<noteq> fl (6063 / 100)"
    unfolding doubles_of_hundredths by simp_all
  show ?thesis
    using 1 2 3
    by (simp add: tie_results rounded_reduction_160_73 rounded_reduction_320_126)
qed


section \<open>Deleting the original\<close>

text \<open>
  C4. After a successful call the input path is gone exactly when \<^verbatim>\<open>keepOriginal\<close> is
  false and the lower-cased extension of the input differs from the target extension.
  Otherwise the input path still exists, with the node it had before unless the output
  was written onto it, and the output file is there with the reported size. In both
  cases the reported original size is the size \<^verbatim>\<open>stat\<close> gave for the input.
\<close>

theorem original_deleted_iff:
  assumes "optimizeImage codec w p options = (r, w')" and "success r"
  shows "(\<not> path_exists w' p \<longleftrightarrow>
            \<not> keepOriginal_or_default options
            \<and> toLowerCase (path_extname p) \<noteq> ''.'' @ outputExtension (format_or_default options))
       \<and> (keepOriginal_or_default options
            \<or> toLowerCase (path_extname p) = ''.'' @ outputExtension (format_or_default options) \<longrightarrow>
            path_exists w' p
            \<and> (fs_key (outputPath r) \<noteq> fs_key p \<longrightarrow> fs_lookup w' p = fs_lookup w p)
            \<and> fs_lookup w' (outputPath r) = Some (RegularFile (optimizedSize r)))
       \<and> path_exists w p
       \<and> fs_stat_size w p = Inr (originalSize r)"
proof -
  let ?out = "compute_outputPath p options"
  from assms have tr: "optimizeImage_try codec w p options = Inr (r, w')"
    by (rule optimizeImage_success_steps)
  from optimizeImage_try_steps[OF tr] obtain node w1 n where
    node: "fs_lookup w p = Some node"
    and w1: "case truthy_outputDir options of Some d \<Rightarrow> fs_mkdir_recursive w d = Inr w1 | None \<Rightarrow> w1 = w"
    and del: "if should_delete_original p options
        then fs_unlink (w1(fs_key ?out \<mapsto> RegularFile n)) p = Inr w'
        else w' = w1(fs_key ?out \<mapsto> RegularFile n)"
    and r: "r = \<lparr> inputPath = p, outputPath = ?out,
            originalSize = node_size node, optimizedSize = n,
            reduction = rounded_reduction (node_size node) n, success = True, error = None \<rparr>"
    by blast
  from node have p: "p \<noteq> []" and wk: "w (fs_key p) = Some node"
    by (auto simp: fs_lookup_def split: if_splits)
  have w1k: "w1 (fs_key p) = Some node"
    using w1 wk by (auto split: option.splits intro: fs_mkdir_recursive_preserves)
  have sd: "should_delete_original p options \<longleftrightarrow>
      \<not> keepOriginal_or_default options
      \<and> toLowerCase (path_extname p) \<noteq> ''.'' @ outputExtension (format_or_default options)"
    by (simp add: should_delete_original_def Let_def)
  show ?thesis
  proof (cases "should_delete_original p options")
    case True
    with del have "fs_lookup w' p = None" by (auto dest: fs_unlink_removes)
    with True sd node show ?thesis
      by (auto simp: path_exists_def fs_stat_size_def r)
  next
    case False
    with del have w': "w' = w1(fs_key ?out \<mapsto> RegularFile n)" by simp
    have "fs_lookup w' p \<noteq> None"
      using w1k p by (simp add: w' fs_lookup_def)
    moreover have "fs_key ?out \<noteq> fs_key p \<Longrightarrow> fs_lookup w' p = fs_lookup w p"
      using w1k wk p by (simp add: w' fs_lookup_def)
    moreover have "fs_lookup w' ?out = Some (RegularFile n)"
      by (simp add: w' fs_lookup_def compute_outputPath_nonempty)
    ultimately show ?thesis using False sd node
      by (auto simp: path_exists_def fs_stat_size_def r)
  qed
qed

theorem original_deleted_iff_witness:
  "\<not> path_exists (snd (optimizeImage example_codec example_world ''/img/a.png'' default_options))
       ''/img/a.png''
   \<and> path_exists (snd (optimizeImage example_codec example_world ''/img/c.webp'' default_options))
       ''/img/c.webp''"
proof -
  let ?a = "optimizeImage example_codec example_world ''/img/a.png'' default_options"
  let ?c = "optimizeImage example_codec example_world ''/img/c.webp'' default_options"
  have sa: "success (fst ?a)" by (simp add: example_a_result)
  have lc: "fs_lookup example_world ''/img/c.webp'' = Some (RegularFile 900)" by code_simp
  have sc: "success (fst ?c)"
    using optimizeImage_success_fst[of example_world "''/img/c.webp''" 900 default_options
        example_codec 400] lc
    by (simp add: truthy_outputDir_def default_options_def example_codec_def)
  have da: "\<not> keepOriginal_or_default default_options
      \<and> toLowerCase (path_extname ''/img/a.png'')
          \<noteq> ''.'' @ outputExtension (format_or_default default_options)"
    by code_simp
  have dc: "toLowerCase (path_extname ''/img/c.webp'')
      = ''.'' @ outputExtension (format_or_default default_options)"
    by code_simp
  from original_deleted_iff[of example_codec example_world "''/img/a.png''" default_options
      "fst ?a" "snd ?a"] sa da
  have "\<not> path_exists (snd ?a) ''/img/a.png''" by simp
  moreover
  from original_deleted_iff[of example_codec example_world "''/img/c.webp''" default_options
      "fst ?c" "snd ?c"] sc dc
  have "path_exists (snd ?c) ''/img/c.webp''" by simp
  ultimately show ?thesis by blast
qed

section \<open>The output path\<close>



section \<open>The HTTP handlers: responses and archive\<close>

lemma handler_loop_inv:
  "handler_loop codec q fmt files (results, opt, w) = (results', opt', w') \<Longrightarrow>
     \<exists>rs. results' = results @ rs \<and> opt' = opt @ map outputPath (filter success rs)
        \<and> map inputPath rs = map (the \<circ> upload_filePath) (filter has_filePath files)
        \<and> (\<forall>r \<in> set rs. \<exists>w0 p. r = fst (optimizeImage codec w0 p (handler_options tempDir q fmt)))"
proof (induction files arbitrary: results opt w)
  case Nil
  then show ?case by simp
next
  case (Cons f rest)
  show ?case
  proof (cases "upload_filePath f")
    case None
    with Cons.prems have "handler_loop codec q fmt rest (results, opt, w) = (results', opt', w')"
      by simp
    from Cons.IH[OF this] None show ?thesis by (simp add: has_filePath_def)
  next
    case (Some filePath)
    obtain r w1 where step: "optimizeImage codec w filePath (handler_options tempDir q fmt) = (r, w1)"
      by (cases "optimizeImage codec w filePath (handler_options tempDir q fmt)")
    let ?opt = "if success r then opt @ [outputPath r] else opt"
    from Cons.prems Some step
    have "handler_loop codec q fmt rest (results @ [r], ?opt, unlink_quietly w1 filePath)
        = (results', opt', w')"
      by simp
    from Cons.IH[OF this] obtain rs where rs:
      "results' = (results @ [r]) @ rs" "opt' = ?opt @ map outputPath (filter success rs)"
      "map inputPath rs = map (the \<circ> upload_filePath) (filter has_filePath rest)"
      "\<forall>x \<in> set rs. \<exists>w0 p. x = fst (optimizeImage codec w0 p (handler_options tempDir q fmt))"
      by blast
    have ip: "inputPath r = filePath"
      using optimizeImage_inputPath[of codec w filePath "handler_options tempDir q fmt"] step by simp
    have r0: "\<exists>w0 p. r = fst (optimizeImage codec w0 p (handler_options tempDir q fmt))"
      using step by (metis fst_conv)
    have hf: "filter has_filePath (f # rest) = f # filter has_filePath rest"
      using Some by (simp add: has_filePath_def)
    have "results' = results @ (r # rs)" using rs(1) by simp
    moreover have "opt' = opt @ map outputPath (filter success (r # rs))" using rs(2) by simp
    moreover have "map inputPath (r # rs)
        = map (the \<circ> upload_filePath) (filter has_filePath (f # rest))"
      unfolding hf using rs(3) ip Some by simp
    moreover have "\<forall>x \<in> set (r # rs).
        \<exists>w0 p. x = fst (optimizeImage codec w0 p (handler_options tempDir q fmt))"
      using rs(4) r0 by (metis set_ConsD)
    ultimately show ?thesis by blast
  qed
qed

lemma route_loop_inv:
  "route_loop codec dir q fmt files (results, opt, w) = (results', opt', w') \<Longrightarrow>
     \<exists>rs. results' = results @ rs \<and> opt' = opt @ map outputPath (filter success rs)
        \<and> map inputPath rs = map multer_path files
        \<and> (\<forall>r \<in> set rs. \<exists>w0 p. r = fst (optimizeImage codec w0 p (handler_options dir q fmt)))"
proof (induction files arbitrary: results opt w)
  case Nil
  then show ?case by simp
next
  case (Cons f rest)
  obtain r w1 where step:
    "optimizeImage codec w (multer_path f) (handler_options dir q fmt) = (r, w1)"
    by (cases "optimizeImage codec w (multer_path f) (handler_options dir q fmt)")
  let ?opt = "if success r then opt @ [outputPath r] else opt"
  from Cons.prems step
  have "route_loop codec dir q fmt rest (results @ [r], ?opt, unlink_quietly w1 (multer_path f))
      = (results', opt', w')"
    by simp
  from Cons.IH[OF this] obtain rs where rs:
    "results' = (results @ [r]) @ rs" "opt' = ?opt @ map outputPath (filter success rs)"
    "map inputPath rs = map multer_path rest"
    "\<forall>x \<in> set rs. \<exists>w0 p. x = fst (optimizeImage codec w0 p (handler_options dir q fmt))"
    by blast
  have ip: "inputPath r = multer_path f"
    using optimizeImage_inputPath[of codec w "multer_path f" "handler_options dir q fmt"] step
    by simp
  have r0: "\<exists>w0 p. r = fst (optimizeImage codec w0 p (handler_options dir q fmt))"
    using step by (metis fst_conv)
  have "results' = results @ (r # rs)" using rs(1) by simp
  moreover have "opt' = opt @ map outputPath (filter success (r # rs))" using rs(2) by simp
  moreover have "map inputPath (r # rs) = map multer_path (f # rest)"
    using rs(3) ip by simp
  moreover have "\<forall>x \<in> set (r # rs).
      \<exists>w0 p. x = fst (optimizeImage codec w0 p (handler_options dir q fmt))"
    using rs(4) r0 by (metis set_ConsD)
  ultimately show ?case by blast
qed

lemma add_files_to_archive_acc:
  "add_files_to_archive w paths archive console =
     (archive @ map archive_entry_of (filter (path_exists w) paths),
      console @ map not_found_line (filter (\<lambda>p. \<not> path_exists w p) paths))"
proof (induction paths arbitrary: archive console)
  case Nil
  show ?case by simp
next
  case (Cons p ps)
  show ?case
    by (cases "fs_lookup w p")
       (simp_all add: Cons.IH fs_access_def path_exists_def archive_entry_of_def)
qed

lemma no_success_no_files:
  "map outputPath (filter success rs) = [] \<longleftrightarrow> (\<forall>r \<in> set rs. \<not> success r)"
  by (induction rs) auto

lemma handler_no_files:
  assumes "req_method req = ''POST''" "fs_mkdir_recursive w tempDir = Inr w1"
    "parse_form req w1 = Inr (form, w2)" "fileArray_of (images form) = []"
  shows "handler codec w req = (Sent (Json 400 no_files_body), w2)"
  using assms by (simp add: handler_def no_files_body_def)

lemma handler_after_loop:
  assumes "req_method req = ''POST''" "fs_mkdir_recursive w tempDir = Inr w1"
    "parse_form req w1 = Inr (form, w2)" "fileArray_of (images form) \<noteq> []"
    "handler_loop codec (handler_quality form) (handler_format form)
       (fileArray_of (images form)) ([], [], w2) = (results, optimizedFiles, w3)"
  shows "handler codec w req =
     (if optimizedFiles = [] then (Sent (Json 400 (none_processed_body results)), w3)
      else (NeverResponds (fst (add_files_to_archive w3 optimizedFiles [] [])), w3))"
  using assms
  by (simp add: handler_def none_processed_body_def handler_quality_def handler_format_def
      split: prod.splits)

lemma route_no_files:
  assumes "req_files req = None \<or> req_files req = Some []"
  shows "optimize_route codec dir w req = (Responded (Json 400 no_files_body), w)"
  using assms by (auto simp: optimize_route_def no_files_body_def)

lemma route_after_loop:
  assumes "req_files req = Some files" "files \<noteq> []" "fs_mkdir_recursive w dir = Inr w1"
    "route_loop codec dir (route_quality req) (route_format req) files ([], [], w1)
       = (results, optimizedFiles, w2)"
  shows "optimize_route codec dir w req =
     (if optimizedFiles = [] then (Responded (Json 400 (none_processed_body results)), w2)
      else (Archived (fst (add_files_to_archive w2 optimizedFiles [] [])) optimizedFiles, w2))"
  using assms
  by (simp add: optimize_route_def none_processed_body_def route_quality_def route_format_def
      split: prod.splits)

lemma handler_loop_results:
  assumes "handler_loop codec q fmt files ([], [], w) = (results, optimizedFiles, w')"
  shows "optimizedFiles = map outputPath (filter success results)"
    and "map inputPath results = map (the \<circ> upload_filePath) (filter has_filePath files)"
    and "\<forall>r \<in> set results. \<exists>w0 p. r = fst (optimizeImage codec w0 p (handler_options tempDir q fmt))"
  using handler_loop_inv[OF assms] by auto

lemma route_loop_results:
  assumes "route_loop codec dir q fmt files ([], [], w) = (results, optimizedFiles, w')"
  shows "optimizedFiles = map outputPath (filter success results)"
    and "map inputPath results = map multer_path files"
    and "\<forall>r \<in> set results. \<exists>w0 p. r = fst (optimizeImage codec w0 p (handler_options dir q fmt))"
  using route_loop_inv[OF assms] by auto

lemma rejecting_codec_fails:
  "\<not> success (fst (optimizeImage rejecting_codec w p options))"
proof
  assume s: "success (fst (optimizeImage rejecting_codec w p options))"
  have "optimizeImage_try rejecting_codec w p options
      = Inr (fst (optimizeImage rejecting_codec w p options),
             snd (optimizeImage rejecting_codec w p options))"
    by (rule optimizeImage_success_steps[OF _ s]) simp
  from optimizeImage_try_steps[OF this] show False
    by (auto simp: rejecting_codec_def)
qed

lemma mkdir_example_tempDir: "\<not> isl (fs_mkdir_recursive example_world tempDir)"
  by code_simp

lemma mkdir_example_app_temp: "\<not> isl (fs_mkdir_recursive example_world ''/app/temp'')"
  by code_simp

text \<open>
  C5, as the code has it. A request with no files is answered with status 400 and a body
  that has the \<^verbatim>\<open>error\<close> field only: no \<^verbatim>\<open>details\<close>. A request with files of which
  none was optimized successfully is answered with status 400 and a body with \<^verbatim>\<open>error\<close>
  and \<^verbatim>\<open>details\<close>, one \<open>{file, error}\<close> entry per processed input, in input order, and
  no archive: in \<^verbatim>\<open>src/index.ts\<close> one entry per file, in \<^verbatim>\<open>api/optimize.ts\<close> one per
  file that has a path. Both hold for a POST whose form was parsed and once the temporary
  directory could be created; before that the handlers answer 405 or 500.
\<close>

theorem bad_request_responses:
  "(req_method req = ''POST'' \<and> fs_mkdir_recursive w tempDir = Inr w1
      \<and> parse_form req w1 = Inr (form, w2) \<and> fileArray_of (images form) = [] \<longrightarrow>
      handler codec w req = (Sent (Json 400 no_files_body), w2))
   \<and> (req_method req = ''POST'' \<and> fs_mkdir_recursive w tempDir = Inr w1
      \<and> parse_form req w1 = Inr (form, w2) \<and> fileArray_of (images form) \<noteq> []
      \<and> handler_loop codec (handler_quality form) (handler_format form)
           (fileArray_of (images form)) ([], [], w2) = (results, optimizedFiles, w3)
      \<and> (\<forall>r \<in> set results. \<not> success r) \<longrightarrow>
      handler codec w req = (Sent (Json 400 (none_processed_body results)), w3)
      \<and> length (map detail_of results) = length (filter has_filePath (fileArray_of (images form)))
      \<and> map detail_file (map detail_of results)
          = map (the \<circ> upload_filePath) (filter has_filePath (fileArray_of (images form))))
   \<and> (req_files rreq = None \<or> req_files rreq = Some [] \<longrightarrow>
      optimize_route codec dir rw rreq = (Responded (Json 400 no_files_body), rw))
   \<and> (req_files rreq = Some files \<and> files \<noteq> [] \<and> fs_mkdir_recursive rw dir = Inr rw1
      \<and> route_loop codec dir (route_quality rreq) (route_format rreq) files ([], [], rw1)
           = (rresults, roptimizedFiles, rw2)
      \<and> (\<forall>r \<in> set rresults. \<not> success r) \<longrightarrow>
      optimize_route codec dir rw rreq = (Responded (Json 400 (none_processed_body rresults)), rw2)
      \<and> length (map detail_of rresults) = length files
      \<and> map detail_file (map detail_of rresults) = map multer_path files)"
proof (intro conjI impI)
  assume "req_method req = ''POST'' \<and> fs_mkdir_recursive w tempDir = Inr w1
      \<and> parse_form req w1 = Inr (form, w2) \<and> fileArray_of (images form) = []"
  then show "handler codec w req = (Sent (Json 400 no_files_body), w2)"
    using handler_no_files by blast
next
  assume a: "req_method req = ''POST'' \<and> fs_mkdir_recursive w tempDir = Inr w1
      \<and> parse_form req w1 = Inr (form, w2) \<and> fileArray_of (images form) \<noteq> []
      \<and> handler_loop codec (handler_quality form) (handler_format form)
           (fileArray_of (images form)) ([], [], w2) = (results, optimizedFiles, w3)
      \<and> (\<forall>r \<in> set results. \<not> success r)"
  then have loop: "handler_loop codec (handler_quality form) (handler_format form)
           (fileArray_of (images form)) ([], [], w2) = (results, optimizedFiles, w3)"
    by blast
  from handler_loop_results(1)[OF loop] a have none: "optimizedFiles = []"
    by (simp add: no_success_no_files)
  from handler_after_loop[of req w w1 form w2 codec results optimizedFiles w3] a none
  show "handler codec w req = (Sent (Json 400 (none_processed_body results)), w3)" by simp
  have m: "map inputPath results
      = map (the \<circ> upload_filePath) (filter has_filePath (fileArray_of (images form)))"
    by (rule handler_loop_results(2)[OF loop])
  from arg_cong[OF m, of length]
  show "length (map detail_of results) = length (filter has_filePath (fileArray_of (images form)))"
    by simp
  have "map detail_file (map detail_of results) = map inputPath results"
    by (simp add: detail_of_def)
  with m show "map detail_file (map detail_of results)
      = map (the \<circ> upload_filePath) (filter has_filePath (fileArray_of (images form)))"
    by simp
next
  assume "req_files rreq = None \<or> req_files rreq = Some []"
  then show "optimize_route codec dir rw rreq = (Responded (Json 400 no_files_body), rw)"
    by (rule route_no_files)
next
  assume a: "req_files rreq = Some files \<and> files \<noteq> [] \<and> fs_mkdir_recursive rw dir = Inr rw1
      \<and> route_loop codec dir (route_quality rreq) (route_format rreq) files ([], [], rw1)
           = (rresults, roptimizedFiles, rw2)
      \<and> (\<forall>r \<in> set rresults. \<not> success r)"
  then have loop: "route_loop codec dir (route_quality rreq) (route_format rreq) files ([], [], rw1)
           = (rresults, roptimizedFiles, rw2)"
    by blast
  from route_loop_results(1)[OF loop] a have none: "roptimizedFiles = []"
    by (simp add: no_success_no_files)
  from route_after_loop[of rreq files rw dir rw1 codec rresults roptimizedFiles rw2] a none
  show "optimize_route codec dir rw rreq = (Responded (Json 400 (none_processed_body rresults)), rw2)"
    by simp
  have m: "map inputPath rresults = map multer_path files"
    by (rule route_loop_results(2)[OF loop])
  from arg_cong[OF m, of length] show "length (map detail_of rresults) = length files"
    by simp
  have "map detail_file (map detail_of rresults) = map inputPath rresults"
    by (simp add: detail_of_def)
  with m show "map detail_file (map detail_of rresults) = map multer_path files"
    by simp
qed

theorem bad_request_responses_witness:
  "fst (handler example_codec example_world no_files_request) = Sent (Json 400 no_files_body)
   \<and> (\<exists>ds. fst (handler rejecting_codec example_world two_files_request)
        = Sent (Json 400 (JsonBody ''Nenhuma imagem foi processada com sucesso'' (Some ds) None))
        \<and> length ds = 2)
   \<and> fst (optimize_route example_codec ''/app/temp'' example_world no_files_route_request)
       = Responded (Json 400 no_files_body)
   \<and> (\<exists>ds. fst (optimize_route rejecting_codec ''/app/temp'' example_world
          two_files_route_request)
        = Responded (Json 400 (JsonBody ''Nenhuma imagem foi processada com sucesso'' (Some ds) None))
        \<and> length ds = 2)"
proof -
  obtain w1 where mk: "fs_mkdir_recursive example_world tempDir = Inr w1"
    using mkdir_example_tempDir by (cases "fs_mkdir_recursive example_world tempDir") simp_all
  obtain rw1 where rmk: "fs_mkdir_recursive example_world ''/app/temp'' = Inr rw1"
    using mkdir_example_app_temp
    by (cases "fs_mkdir_recursive example_world ''/app/temp''") simp_all
  let ?form0 = "\<lparr> quality_0 = None, format_0 = None, images = NoImages \<rparr>"
  have p0: "req_method no_files_request = ''POST'' \<and> fs_mkdir_recursive example_world tempDir = Inr w1
      \<and> parse_form no_files_request w1 = Inr (?form0, w1) \<and> fileArray_of (images ?form0) = []"
    by (simp add: no_files_request_def mk fileArray_of_def)
  have a: "fst (handler example_codec example_world no_files_request)
      = Sent (Json 400 no_files_body)"
    using bad_request_responses[where req = no_files_request and w = example_world and ?w1.0 = w1
        and form = ?form0 and ?w2.0 = w1 and codec = example_codec] p0
    by simp
  obtain results optimizedFiles w3 where loop:
    "handler_loop rejecting_codec (handler_quality two_files_form) (handler_format two_files_form)
       (fileArray_of (images two_files_form)) ([], [], w1) = (results, optimizedFiles, w3)"
    by (metis prod_cases3)
  have fail: "\<forall>r \<in> set results. \<not> success r"
    using handler_loop_results(3)[OF loop] rejecting_codec_fails by metis
  have p2: "req_method two_files_request = ''POST''
      \<and> fs_mkdir_recursive example_world tempDir = Inr w1
      \<and> parse_form two_files_request w1 = Inr (two_files_form, w1)
      \<and> fileArray_of (images two_files_form) \<noteq> []"
    by (simp add: two_files_request_def mk fileArray_of_def two_files_form_def two_uploads_def)
  have n2: "length (filter has_filePath (fileArray_of (images two_files_form))) = 2"
    by (simp add: fileArray_of_def two_files_form_def two_uploads_def has_filePath_def
        upload_filePath_def)
  from bad_request_responses[where req = two_files_request and w = example_world and ?w1.0 = w1
      and form = two_files_form and ?w2.0 = w1 and codec = rejecting_codec
      and results = results and optimizedFiles = optimizedFiles and ?w3.0 = w3] p2 loop fail n2
  have b: "fst (handler rejecting_codec example_world two_files_request)
      = Sent (Json 400 (none_processed_body results)) \<and> length results = 2"
    by simp
  have c: "fst (optimize_route example_codec ''/app/temp'' example_world no_files_route_request)
       = Responded (Json 400 no_files_body)"
    using bad_request_responses[where rreq = no_files_route_request and rw = example_world
        and codec = example_codec and dir = "''/app/temp''"]
    by (simp add: no_files_route_request_def)
  obtain rresults roptimizedFiles rw2 where rloop:
    "route_loop rejecting_codec ''/app/temp'' (route_quality two_files_route_request)
       (route_format two_files_route_request) two_multer_files ([], [], rw1)
       = (rresults, roptimizedFiles, rw2)"
    by (metis prod_cases3)
  have rfail: "\<forall>r \<in> set rresults. \<not> success r"
    using route_loop_results(3)[OF rloop] rejecting_codec_fails by metis
  have p4: "req_files two_files_route_request = Some two_multer_files \<and> two_multer_files \<noteq> []"
    by (simp add: two_files_route_request_def two_multer_files_def)
  from bad_request_responses[where rreq = two_files_route_request and rw = example_world
      and codec = rejecting_codec and dir = "''/app/temp''" and files = two_multer_files
      and ?rw1.0 = rw1 and rresults = rresults and roptimizedFiles = roptimizedFiles
      and ?rw2.0 = rw2] p4 rmk rloop rfail
  have d: "fst (optimize_route rejecting_codec ''/app/temp'' example_world two_files_route_request)
      = Responded (Json 400 (none_processed_body rresults)) \<and> length rresults = 2"
    by (simp add: two_multer_files_def)
  from a b c d show ?thesis
    by (simp add: none_processed_body_def)
qed

text \<open>
  The specification gives the 400 body a \<^verbatim>\<open>details\<close> array also when no file was
  sent. Both handlers answer such a request with the \<^verbatim>\<open>error\<close> field alone.
\<close>

theorem no_files_body_counterexample:
  "fst (handler example_codec example_world no_files_request)
     = Sent (Json 400 (JsonBody ''Nenhuma imagem foi enviada'' None None))
   \<and> fst (optimize_route example_codec ''/app/temp'' example_world no_files_route_request)
       = Responded (Json 400 (JsonBody ''Nenhuma imagem foi enviada'' None None))"
proof -
  obtain w1 where mk: "fs_mkdir_recursive example_world tempDir = Inr w1"
    using mkdir_example_tempDir by (cases "fs_mkdir_recursive example_world tempDir") simp_all
  let ?form0 = "\<lparr> quality_0 = None, format_0 = None, images = NoImages \<rparr>"
  have "handler example_codec example_world no_files_request
      = (Sent (Json 400 no_files_body), w1)"
    by (rule handler_no_files[where form = ?form0 and ?w1.0 = w1])
       (simp_all add: no_files_request_def mk fileArray_of_def)
  moreover have "optimize_route example_codec ''/app/temp'' example_world no_files_route_request
      = (Responded (Json 400 no_files_body), example_world)"
    by (rule route_no_files) (simp add: no_files_route_request_def)
  ultimately show ?thesis
    by (simp add: no_files_body_def)
qed

lemma mkdir_each_existing: "all_directories w ds \<Longrightarrow> mkdir_each w ds = Inr w"
  by (induction ds) (auto simp: all_directories_def split: option.splits fs_node.splits)

lemma fs_mkdir_recursive_existing:
  "p \<noteq> [] \<Longrightarrow> all_directories w (directories_towards (fs_key p)) \<Longrightarrow>
     fs_mkdir_recursive w p = Inr w"
  by (simp add: fs_mkdir_recursive_def mkdir_each_existing)

lemma compute_outputPath_handler_options:
  "dir \<noteq> [] \<Longrightarrow> compute_outputPath p (handler_options dir q fmt) =
     path_join [dir, path_basename p (path_extname p) @ ''.'' @ outputExtension fmt]"
  by (simp add: compute_outputPath_def handler_options_def truthy_outputDir_def
      format_or_default_def)

lemma should_delete_handler_options:
  "should_delete_original p (handler_options dir q fmt) \<longleftrightarrow>
     toLowerCase (path_extname p) \<noteq> ''.'' @ outputExtension fmt"
  by (simp add: should_delete_original_def handler_options_def keepOriginal_or_default_def
      format_or_default_def)

lemma single_upload_step:
  assumes "fs_lookup w p = Some (RegularFile s)" and "dir \<noteq> []"
    and "fs_mkdir_recursive w dir = Inr w"
    and "\<forall>w1 enc out. codec w1 p enc out = Inr n"
    and "toLowerCase (path_extname p) \<noteq> ''.'' @ outputExtension fmt"
    and "path_join [dir, path_basename p (path_extname p) @ ''.'' @ outputExtension fmt] = out"
    and "fs_key out \<noteq> fs_key p"
  shows "\<exists>r w'. optimizeImage codec w p (handler_options dir q fmt) = (r, w') \<and> success r
      \<and> outputPath r = out \<and> unlink_quietly w' p = w' \<and> path_exists w' out"
proof -
  let ?o = "handler_options dir q fmt"
  let ?w' = "(w(fs_key out \<mapsto> RegularFile n))(fs_key p := None)"
  have out: "compute_outputPath p ?o = out"
    using assms(2,6) by (simp add: compute_outputPath_handler_options)
  have mk: "(case truthy_outputDir ?o of Some d \<Rightarrow> fs_mkdir_recursive w d | None \<Rightarrow> Inr w) = Inr w"
    using assms(2,3) by (simp add: truthy_outputDir_def handler_options_def)
  have del: "should_delete_original p ?o"
    using assms(5) by (simp add: should_delete_handler_options)
  from optimizeImage_success_eq[OF assms(1) mk, of codec n] assms(4) del out
  have eq: "optimizeImage codec w p ?o =
     (\<lparr> inputPath = p, outputPath = out, originalSize = s, optimizedSize = n,
         reduction = rounded_reduction s n, success = True, error = None \<rparr>, ?w')"
    by simp
  from assms(1) have p: "p \<noteq> []" by (auto simp: fs_lookup_def split: if_splits)
  have "fs_lookup ?w' p = None" using p by (simp add: fs_lookup_def)
  then have uq: "unlink_quietly ?w' p = ?w'"
    by (simp add: unlink_quietly_def fs_unlink_def)
  have "out \<noteq> []" using assms(6) path_join_nonempty by metis
  then have ex: "path_exists ?w' out"
    using assms(7) by (simp add: path_exists_def fs_lookup_def)
  from eq uq ex show ?thesis by simp
qed

text \<open>
  C8. The archive loop never fails: it queues one entry, named by the base name, for each
  path that exists when it is reached, in order, and writes one line to the console for
  each path that does not. In both handlers the paths are the output paths of the
  successful results, and the archive is made of the entries of those that still exist:
  a missing path leaves the others in. In \<^verbatim>\<open>src/index.ts\<close> this archive is handed on to
  be sent; in \<^verbatim>\<open>api/optimize.ts\<close> it is finalized, after which the handler waits for an
  event that has passed and sends nothing.
\<close>

theorem archive_entries_of_existing_paths:
  "add_files_to_archive w paths [] [] =
     (map archive_entry_of (filter (path_exists w) paths),
      map not_found_line (filter (\<lambda>p. \<not> path_exists w p) paths))
   \<and> (req_method req = ''POST'' \<and> fs_mkdir_recursive hw tempDir = Inr w1
      \<and> parse_form req w1 = Inr (form, w2) \<and> fileArray_of (images form) \<noteq> []
      \<and> handler_loop codec (handler_quality form) (handler_format form)
           (fileArray_of (images form)) ([], [], w2) = (results, optimizedFiles, w3)
      \<and> optimizedFiles \<noteq> [] \<longrightarrow>
      optimizedFiles = map outputPath (filter success results)
      \<and> fst (handler codec hw req)
          = NeverResponds (map archive_entry_of (filter (path_exists w3) optimizedFiles)))
   \<and> (req_files rreq = Some files \<and> files \<noteq> [] \<and> fs_mkdir_recursive rw dir = Inr rw1
      \<and> route_loop codec dir (route_quality rreq) (route_format rreq) files ([], [], rw1)
           = (rresults, roptimizedFiles, rw2)
      \<and> roptimizedFiles \<noteq> [] \<longrightarrow>
      roptimizedFiles = map outputPath (filter success rresults)
      \<and> fst (optimize_route codec dir rw rreq)
          = Archived (map archive_entry_of (filter (path_exists rw2) roptimizedFiles))
              roptimizedFiles)"
proof (intro conjI impI)
  show "add_files_to_archive w paths [] [] =
     (map archive_entry_of (filter (path_exists w) paths),
      map not_found_line (filter (\<lambda>p. \<not> path_exists w p) paths))"
    by (simp add: add_files_to_archive_acc)
next
  assume a: "req_method req = ''POST'' \<and> fs_mkdir_recursive hw tempDir = Inr w1
      \<and> parse_form req w1 = Inr (form, w2) \<and> fileArray_of (images form) \<noteq> []
      \<and> handler_loop codec (handler_quality form) (handler_format form)
           (fileArray_of (images form)) ([], [], w2) = (results, optimizedFiles, w3)
      \<and> optimizedFiles \<noteq> []"
  then have loop: "handler_loop codec (handler_quality form) (handler_format form)
           (fileArray_of (images form)) ([], [], w2) = (results, optimizedFiles, w3)"
    by blast
  show "optimizedFiles = map outputPath (filter success results)"
    by (rule handler_loop_results(1)[OF loop])
  from handler_after_loop[of req hw w1 form w2 codec results optimizedFiles w3] a
  show "fst (handler codec hw req)
      = NeverResponds (map archive_entry_of (filter (path_exists w3) optimizedFiles))"
    by (simp add: add_files_to_archive_acc)
next
  assume a: "req_files rreq = Some files \<and> files \<noteq> [] \<and> fs_mkdir_recursive rw dir = Inr rw1
      \<and> route_loop codec dir (route_quality rreq) (route_format rreq) files ([], [], rw1)
           = (rresults, roptimizedFiles, rw2)
      \<and> roptimizedFiles \<noteq> []"
  then have loop: "route_loop codec dir (route_quality rreq) (route_format rreq) files ([], [], rw1)
           = (rresults, roptimizedFiles, rw2)"
    by blast
  show "roptimizedFiles = map outputPath (filter success rresults)"
    by (rule route_loop_results(1)[OF loop])
  from route_after_loop[of rreq files rw dir rw1 codec rresults roptimizedFiles rw2] a
  show "fst (optimize_route codec dir rw rreq)
      = Archived (map archive_entry_of (filter (path_exists rw2) roptimizedFiles))
          roptimizedFiles"
    by (simp add: add_files_to_archive_acc)
qed

theorem archive_entries_of_existing_paths_witness:
  "add_files_to_archive upload_world [''/tmp/optimize/u1.png'', ''/tmp/optimize/gone.webp''] [] []
     = ([ArchiveEntry ''u1.png'' ''/tmp/optimize/u1.png''],
        [not_found_line ''/tmp/optimize/gone.webp''])
   \<and> fst (handler example_codec upload_world one_upload_request)
       = NeverResponds [ArchiveEntry ''u1.webp'' ''/tmp/optimize/u1.webp'']
   \<and> fst (optimize_route example_codec ''/app/temp'' upload_world one_file_route_request)
       = Archived [ArchiveEntry ''f1.webp'' ''/app/temp/f1.webp''] [''/app/temp/f1.webp'']"
proof -
  let ?p = "''/tmp/optimize/u1.png''" and ?out = "''/tmp/optimize/u1.webp''"
  let ?rp = "''/app/uploads/f1''" and ?rout = "''/app/temp/f1.webp''"
  let ?q = "handler_quality one_upload_form" and ?rq = "route_quality one_file_route_request"
  have e1: "path_exists upload_world ''/tmp/optimize/u1.png''"
    and e2: "\<not> path_exists upload_world ''/tmp/optimize/gone.webp''"
    by code_simp+
  have n1: "archive_entry_of ''/tmp/optimize/u1.png'' = ArchiveEntry ''u1.png'' ''/tmp/optimize/u1.png''"
    and n2: "archive_entry_of ?out = ArchiveEntry ''u1.webp'' ?out"
    and n3: "archive_entry_of ?rout = ArchiveEntry ''f1.webp'' ?rout"
    by code_simp+
  have a: "add_files_to_archive upload_world [''/tmp/optimize/u1.png'', ''/tmp/optimize/gone.webp''] [] []
     = ([ArchiveEntry ''u1.png'' ''/tmp/optimize/u1.png''],
        [not_found_line ''/tmp/optimize/gone.webp''])"
    using archive_entries_of_existing_paths[where w = upload_world
        and paths = "[''/tmp/optimize/u1.png'', ''/tmp/optimize/gone.webp'']"] e1 e2 n1
    by simp
  have t: "tempDir \<noteq> []" by (simp add: tempDir_def)
  have mk: "fs_mkdir_recursive upload_world tempDir = Inr upload_world"
    by (rule fs_mkdir_recursive_existing[OF t]) code_simp
  have l: "fs_lookup upload_world ?p = Some (RegularFile 1000)" by code_simp
  have x: "toLowerCase (path_extname ?p) \<noteq> ''.'' @ outputExtension ''webp''" by code_simp
  have j: "path_join [tempDir, path_basename ?p (path_extname ?p) @ ''.'' @ outputExtension ''webp'']
      = ?out" by code_simp
  have k: "fs_key ?out \<noteq> fs_key ?p" by code_simp
  have c: "\<forall>w1 enc out. example_codec w1 ?p enc out = Inr 400" by (simp add: example_codec_def)
  have "\<exists>r w'. optimizeImage example_codec upload_world ?p (handler_options tempDir ?q ''webp'')
        = (r, w') \<and> success r \<and> outputPath r = ?out \<and> unlink_quietly w' ?p = w'
      \<and> path_exists w' ?out"
    by (rule single_upload_step[where s = 1000 and n = 400]) (rule l t mk c x j k)+
  then obtain r w' where step:
    "optimizeImage example_codec upload_world ?p (handler_options tempDir ?q ''webp'') = (r, w')"
    "success r" "outputPath r = ?out" "unlink_quietly w' ?p = w'" "path_exists w' ?out"
    by blast
  have f: "handler_format one_upload_form = ''webp''"
    by (simp add: handler_format_def one_upload_form_def or_default_def)
  have fa: "fileArray_of (images one_upload_form)
      = [\<lparr> filepath = Some ?p, legacy_path = None \<rparr>]"
    by (simp add: fileArray_of_def one_upload_form_def)
  have loop: "handler_loop example_codec ?q (handler_format one_upload_form)
      (fileArray_of (images one_upload_form)) ([], [], upload_world) = ([r], [?out], w')"
    by (simp add: f fa upload_filePath_def step)
  have pre: "req_method one_upload_request = ''POST''
      \<and> parse_form one_upload_request upload_world = Inr (one_upload_form, upload_world)
      \<and> fileArray_of (images one_upload_form) \<noteq> []"
    by (simp add: one_upload_request_def fa)
  from archive_entries_of_existing_paths[where req = one_upload_request and hw = upload_world
      and ?w1.0 = upload_world and form = one_upload_form and ?w2.0 = upload_world
      and codec = example_codec and results = "[r]" and optimizedFiles = "[?out]"
      and ?w3.0 = w'] pre mk loop step(5) n2
  have b: "fst (handler example_codec upload_world one_upload_request)
       = NeverResponds [ArchiveEntry ''u1.webp'' ?out]"
    by simp
  have rt: "''/app/temp'' \<noteq> []" by simp
  have rmk: "fs_mkdir_recursive upload_world ''/app/temp'' = Inr upload_world"
    by (rule fs_mkdir_recursive_existing[OF rt]) code_simp
  have rl: "fs_lookup upload_world ?rp = Some (RegularFile 2000)" by code_simp
  have rx: "toLowerCase (path_extname ?rp) \<noteq> ''.'' @ outputExtension ''webp''" by code_simp
  have rj: "path_join [''/app/temp'', path_basename ?rp (path_extname ?rp) @ ''.''
      @ outputExtension ''webp''] = ?rout" by code_simp
  have rk: "fs_key ?rout \<noteq> fs_key ?rp" by code_simp
  have rc: "\<forall>w1 enc out. example_codec w1 ?rp enc out = Inr 400" by (simp add: example_codec_def)
  have "\<exists>r w'. optimizeImage example_codec upload_world ?rp
        (handler_options ''/app/temp'' ?rq ''webp'') = (r, w') \<and> success r
      \<and> outputPath r = ?rout \<and> unlink_quietly w' ?rp = w' \<and> path_exists w' ?rout"
    by (rule single_upload_step[where s = 2000 and n = 400]) (rule rl rt rmk rc rx rj rk)+
  then obtain rr rw' where rstep:
    "optimizeImage example_codec upload_world ?rp (handler_options ''/app/temp'' ?rq ''webp'')
       = (rr, rw')"
    "success rr" "outputPath rr = ?rout" "unlink_quietly rw' ?rp = rw'" "path_exists rw' ?rout"
    by blast
  have rf: "route_format one_file_route_request = ''webp''"
    by (simp add: route_format_def one_file_route_request_def or_default_def)
  have rloop: "route_loop example_codec ''/app/temp'' ?rq (route_format one_file_route_request)
      [one_multer_file] ([], [], upload_world) = ([rr], [?rout], rw')"
    by (simp add: rf one_multer_file_def rstep)
  have rpre: "req_files one_file_route_request = Some [one_multer_file] \<and> [one_multer_file] \<noteq> []"
    by (simp add: one_file_route_request_def)
  from archive_entries_of_existing_paths[where rreq = one_file_route_request
      and rw = upload_world and dir = "''/app/temp''" and files = "[one_multer_file]"
      and ?rw1.0 = upload_world and codec = example_codec and rresults = "[rr]"
      and roptimizedFiles = "[?rout]" and ?rw2.0 = rw'] rpre rmk rloop rstep(5) n3
  have d: "fst (optimize_route example_codec ''/app/temp'' upload_world one_file_route_request)
       = Archived [ArchiveEntry ''f1.webp'' ?rout] [?rout]"
    by simp
  from a b d show ?thesis by blast
qed

section \<open>Scanning a directory\<close>

lemma is_image_name_supported:
  "toLowerCase (path_extname name) \<in> set supportedExtensions \<longleftrightarrow> is_image_name name"
  by (simp add: supportedExtensions_def is_image_name_def)

lemma reachable_file_Unreadable [simp]: "\<not> reachable_file r cur (Unreadable e) p n"
  by (auto elim: reachable_file.cases)

lemma reachable_file_Nil [simp]: "\<not> reachable_file r cur (Entries []) p n"
  by (auto elim: reachable_file.cases)

lemma reachable_file_Cons:
  "reachable_file r cur (Entries (e # es)) p n \<longleftrightarrow>
     (case e of
        FileEntry m \<Rightarrow> p = path_join [cur, m] \<and> n = m
      | DirEntry d sub \<Rightarrow> r \<and> reachable_file r (path_join [cur, d]) sub p n
      | OtherEntry m \<Rightarrow> False)
     \<or> reachable_file r cur (Entries es) p n"
proof
  assume "reachable_file r cur (Entries (e # es)) p n"
  then show "(case e of
        FileEntry m \<Rightarrow> p = path_join [cur, m] \<and> n = m
      | DirEntry d sub \<Rightarrow> r \<and> reachable_file r (path_join [cur, d]) sub p n
      | OtherEntry m \<Rightarrow> False)
     \<or> reachable_file r cur (Entries es) p n"
    by (cases rule: reachable_file.cases) (auto intro: reachable_file.intros)
next
  assume a: "(case e of
        FileEntry m \<Rightarrow> p = path_join [cur, m] \<and> n = m
      | DirEntry d sub \<Rightarrow> r \<and> reachable_file r (path_join [cur, d]) sub p n
      | OtherEntry m \<Rightarrow> False)
     \<or> reachable_file r cur (Entries es) p n"
  have mono: "reachable_file r cur (Entries es) p n \<Longrightarrow> reachable_file r cur (Entries (e # es)) p n"
    by (cases rule: reachable_file.cases, assumption) (auto intro: reachable_file.intros)
  from a mono show "reachable_file r cur (Entries (e # es)) p n"
    by (cases e) (auto intro: reachable_file.intros)
qed

lemma reachable_images_Unreadable: "reachable_images r cur (Unreadable e) = {}"
  by (simp add: reachable_images_def)

lemma reachable_images_Nil: "reachable_images r cur (Entries []) = {}"
  by (simp add: reachable_images_def)

lemma reachable_images_File:
  "reachable_images r cur (Entries (FileEntry m # es)) =
     (if is_image_name m then {path_join [cur, m]} else {}) \<union> reachable_images r cur (Entries es)"
  unfolding reachable_images_def by (subst reachable_file_Cons) auto

lemma reachable_images_Dir:
  "reachable_images r cur (Entries (DirEntry d sub # es)) =
     (if r then reachable_images r (path_join [cur, d]) sub else {})
       \<union> reachable_images r cur (Entries es)"
  unfolding reachable_images_def by (subst reachable_file_Cons) auto

lemma reachable_images_Other:
  "reachable_images r cur (Entries (OtherEntry m # es)) = reachable_images r cur (Entries es)"
  unfolding reachable_images_def by (subst reachable_file_Cons) auto

lemma scan_reaches:
  "scanDirectory r cur l imgs = Inr out \<longrightarrow> set out = set imgs \<union> reachable_images r cur l"
  "scan_entries r cur es imgs = Inr out \<longrightarrow>
     set out = set imgs \<union> reachable_images r cur (Entries es)"
proof (induction r cur l imgs and r cur es imgs arbitrary: out and out
    rule: scanDirectory_scan_entries.induct)
  case (1 recursive currentPath e found)
  show ?case by simp
next
  case (2 recursive currentPath es found)
  then show ?case by simp
next
  case (3 recursive currentPath found)
  show ?case by (auto simp: reachable_images_Nil)
next
  case (4 recursive currentPath name sub es found)
  show ?case
  proof (cases recursive)
    case False
    have "scan_entries recursive currentPath (DirEntry name sub # es) found
        = scan_entries recursive currentPath es found"
      using False by simp
    moreover have "reachable_images recursive currentPath (Entries (DirEntry name sub # es))
        = reachable_images recursive currentPath (Entries es)"
      using False by (simp add: reachable_images_Dir)
    ultimately show ?thesis using "4.IH"(3)[OF False, of out] by simp
  next
    case True
    show ?thesis
    proof
      assume a: "scan_entries recursive currentPath (DirEntry name sub # es) found = Inr out"
      with True obtain found' where
        s1: "scanDirectory recursive (path_join [currentPath, name]) sub found = Inr found'"
        and s2: "scan_entries recursive currentPath es found' = Inr out"
        by (cases "scanDirectory recursive (path_join [currentPath, name]) sub found") simp_all
      from "4.IH"(1)[OF True, of found'] s1
      have h1: "set found' = set found
          \<union> reachable_images recursive (path_join [currentPath, name]) sub"
        by blast
      from "4.IH"(2)[OF True s1, of out] s2
      have h2: "set out = set found' \<union> reachable_images recursive currentPath (Entries es)"
        by blast
      show "set out = set found
          \<union> reachable_images recursive currentPath (Entries (DirEntry name sub # es))"
        unfolding h2 h1 reachable_images_Dir using True by (simp add: Un_assoc)
    qed
  qed
next
  case (5 recursive currentPath name es found)
  show ?case
  proof (cases "is_image_name name")
    case True
    then have "scan_entries recursive currentPath (FileEntry name # es) found
        = scan_entries recursive currentPath es (found @ [path_join [currentPath, name]])"
      by (simp add: Let_def is_image_name_supported)
    moreover from True have "toLowerCase (path_extname name) \<in> set supportedExtensions"
      by (simp add: is_image_name_supported)
    note "5.IH"(1)[OF refl refl this, of out]
    ultimately show ?thesis using True by (auto simp: reachable_images_File)
  next
    case False
    then have "scan_entries recursive currentPath (FileEntry name # es) found
        = scan_entries recursive currentPath es found"
      by (simp add: Let_def is_image_name_supported)
    moreover from False have "toLowerCase (path_extname name) \<notin> set supportedExtensions"
      by (simp add: is_image_name_supported)
    note "5.IH"(2)[OF refl refl this, of out]
    ultimately show ?thesis using False by (auto simp: reachable_images_File)
  qed
next
  case (6 recursive currentPath name es found)
  then show ?case by (simp add: reachable_images_Other)
qed

lemma scan_entries_flat:
  "scan_entries False cur es imgs =
     Inr (imgs @ map (\<lambda>n. path_join [cur, n]) (filter is_image_name (direct_file_names es)))"
proof (induction es arbitrary: imgs)
  case Nil
  show ?case by (simp add: direct_file_names_def)
next
  case (Cons e es)
  show ?case
  proof (cases e)
    case (FileEntry n)
    then show ?thesis
      using Cons.IH[of imgs] Cons.IH[of "imgs @ [path_join [cur, n]]"]
      by (simp add: direct_file_names_def Let_def is_image_name_supported)
  next
    case (DirEntry d sub)
    then show ?thesis using Cons.IH[of imgs] by (simp add: direct_file_names_def)
  next
    case (OtherEntry n)
    then show ?thesis using Cons.IH[of imgs] by (simp add: direct_file_names_def)
  qed
qed

lemma example_tree_recursive:
  "findImagesInDirectory example_tree ''/pics'' True = Inl JsThrown"
  by code_simp

lemma readable_tree_recursive:
  "findImagesInDirectory readable_tree ''/pics'' True
     = Inr [''/pics/PHOTO.JPG'', ''/pics/sub/img.PnG'']"
  by code_simp

text \<open>
  C9. When the scan returns, a path is in the list exactly when it is the full path of a
  regular file within reach (in the directory itself, or below it when \<open>recursive\<close>
  holds) whose extension, lower-cased, is \<^verbatim>\<open>.png\<close>, \<^verbatim>\<open>.jpg\<close>, \<^verbatim>\<open>.jpeg\<close> or \<^verbatim>\<open>.webp\<close>.
  With \<open>recursive = False\<close> the result is made of the files directly inside the
  directory, whatever its subdirectories hold.
\<close>

theorem findImagesInDirectory_finds:
  "(findImagesInDirectory tree dirPath recursive = Inr found \<longrightarrow>
      (\<forall>p. p \<in> set found \<longleftrightarrow>
         (\<exists>name. reachable_file recursive dirPath tree p name
            \<and> toLowerCase (path_extname name) \<in> {''.png'', ''.jpg'', ''.jpeg'', ''.webp''})))
   \<and> findImagesInDirectory (Entries es) dirPath False =
       Inr (map (\<lambda>n. path_join [dirPath, n]) (filter is_image_name (direct_file_names es)))"
proof
  show "findImagesInDirectory tree dirPath recursive = Inr found \<longrightarrow>
      (\<forall>p. p \<in> set found \<longleftrightarrow>
         (\<exists>name. reachable_file recursive dirPath tree p name
            \<and> toLowerCase (path_extname name) \<in> {''.png'', ''.jpg'', ''.jpeg'', ''.webp''}))"
  proof
    assume "findImagesInDirectory tree dirPath recursive = Inr found"
    then have "set found = reachable_images recursive dirPath tree"
      using scan_reaches(1)[of recursive dirPath tree "[]" found]
      by (simp add: findImagesInDirectory_def)
    then show "\<forall>p. p \<in> set found \<longleftrightarrow>
         (\<exists>name. reachable_file recursive dirPath tree p name
            \<and> toLowerCase (path_extname name) \<in> {''.png'', ''.jpg'', ''.jpeg'', ''.webp''})"
      by (simp add: reachable_images_def is_image_name_def)
  qed
  show "findImagesInDirectory (Entries es) dirPath False =
       Inr (map (\<lambda>n. path_join [dirPath, n]) (filter is_image_name (direct_file_names es)))"
    by (simp add: findImagesInDirectory_def scan_entries_flat)
qed

theorem findImagesInDirectory_finds_witness:
  "(\<exists>name. reachable_file True ''/pics'' readable_tree ''/pics/sub/img.PnG'' name
      \<and> toLowerCase (path_extname name) \<in> {''.png'', ''.jpg'', ''.jpeg'', ''.webp''})
   \<and> \<not> (\<exists>name. reachable_file True ''/pics'' readable_tree ''/pics/sub/raw.tiff'' name
      \<and> toLowerCase (path_extname name) \<in> {''.png'', ''.jpg'', ''.jpeg'', ''.webp''})
   \<and> findImagesInDirectory example_tree ''/pics'' False = Inr [''/pics/PHOTO.JPG'']"
proof -
  let ?found = "[''/pics/PHOTO.JPG'', ''/pics/sub/img.PnG'']"
  from findImagesInDirectory_finds[of readable_tree "''/pics''" True ?found] readable_tree_recursive
  have iff: "\<forall>p. p \<in> set ?found \<longleftrightarrow>
         (\<exists>name. reachable_file True ''/pics'' readable_tree p name
            \<and> toLowerCase (path_extname name) \<in> {''.png'', ''.jpg'', ''.jpeg'', ''.webp''})"
    by blast
  have m1: "''/pics/sub/img.PnG'' \<in> set ?found" by simp
  have m2: "''/pics/sub/raw.tiff'' \<notin> set ?found" by simp
  have flat: "map (\<lambda>n. path_join [''/pics'', n])
      (filter is_image_name (direct_file_names
        [FileEntry ''PHOTO.JPG'', FileEntry ''notes.txt'',
         DirEntry ''sub'' (Entries [FileEntry ''img.PnG'']),
         DirEntry ''locked'' (Unreadable JsThrown), OtherEntry ''link.png'']))
      = [''/pics/PHOTO.JPG'']"
    by code_simp
  from findImagesInDirectory_finds[where dirPath = "''/pics''" and es = "[FileEntry ''PHOTO.JPG'', FileEntry ''notes.txt'',
         DirEntry ''sub'' (Entries [FileEntry ''img.PnG'']),
         DirEntry ''locked'' (Unreadable JsThrown), OtherEntry ''link.png'']"] flat
  have nr: "findImagesInDirectory example_tree ''/pics'' False = Inr [''/pics/PHOTO.JPG'']"
    by (simp add: example_tree_def)
  from iff m1 m2 nr show ?thesis by blast
qed

section \<open>Formatting a byte count\<close>

lemma unit_index_floorlog [code]: "unit_index n = floorlog 1024 n - 1"
proof (cases "n = 0")
  case True
  then show ?thesis by (simp add: unit_index_def floorlog_def)
next
  case False
  then show ?thesis by (simp add: unit_index_def floorlog_def log_def)
qed

lemma unit_index_less_iff:
  assumes "0 < n"
  shows "unit_index n < k \<longleftrightarrow> n < 1024 ^ k"
proof -
  have pos: "0 < floorlog 1024 n" using assms by (simp add: floorlog_def)
  have "unit_index n < k \<longleftrightarrow> floorlog 1024 n \<le> k"
    using pos by (auto simp: unit_index_floorlog)
  also have "\<dots> \<longleftrightarrow> n < 1024 ^ k"
    by (simp add: floorlog_le_iff)
  finally show ?thesis .
qed

lemma sizes_at_in_range: "i < length sizes \<Longrightarrow> sizes_at i \<in> set sizes"
  by (simp add: sizes_at_def)

lemma sizes_at_out_of_range: "length sizes \<le> i \<Longrightarrow> sizes_at i = ''undefined''"
  by (simp add: sizes_at_def)

lemma formatBytes_pos:
  "0 < bytes \<Longrightarrow> \<exists>digits. formatBytes bytes = digits @ '' '' @ sizes_at (unit_index (nat bytes))"
  by (simp add: formatBytes_def Let_def)

lemma unit_index_1536: "unit_index 1536 = 1"
  unfolding unit_index_floorlog by code_simp

lemma formatBytes_1536: "formatBytes 1536 = ''1.5 KB''"
proof -
  have r: "round_half_up (of_int 1536 / 1024 ^ 1 * 100) = 150"
    by (simp add: round_half_up_def floor_eq_iff)
  have s: "string_of_hundredths 150 = ''1.5''" by code_simp
  have u: "sizes_at 1 = ''KB''" by code_simp
  show ?thesis
    using r s u by (simp add: formatBytes_def Let_def unit_index_1536)
qed

text \<open>
  C10. \<^verbatim>\<open>formatBytes(0)\<close> is \<^verbatim>\<open>0 Bytes\<close>. For a whole number of bytes from 1 up to, not
  including, \<open>1024 ^ 4\<close> the unit index \<open>\<lfloor>log bytes / log 1024\<rfloor>\<close> is below 4 and the
  result ends with a space and one of \<^verbatim>\<open>Bytes\<close>, \<^verbatim>\<open>KB\<close>, \<^verbatim>\<open>MB\<close>, \<^verbatim>\<open>GB\<close>. From
  \<open>1024 ^ 4\<close> on the index is 4 or more, outside the array, and the result ends with
  \<^verbatim>\<open>undefined\<close>. The logarithms are exact here, not doubles.
\<close>

theorem formatBytes_units:
  "formatBytes 0 = ''0 Bytes''
   \<and> (1 \<le> bytes \<and> bytes < 1024 ^ 4 \<longrightarrow>
        unit_index (nat bytes) < length sizes
        \<and> (\<exists>u \<in> set sizes. suffix ('' '' @ u) (formatBytes bytes)))
   \<and> (1024 ^ 4 \<le> bytes \<longrightarrow>
        length sizes \<le> unit_index (nat bytes)
        \<and> suffix '' undefined'' (formatBytes bytes))"
proof (intro conjI impI)
  show "formatBytes 0 = ''0 Bytes''" by (simp add: formatBytes_def)
next
  assume a: "1 \<le> bytes \<and> bytes < 1024 ^ 4"
  then have n: "0 < nat bytes" "nat bytes < 1024 ^ 4"
    by (simp_all add: nat_less_iff)
  then show i: "unit_index (nat bytes) < length sizes"
    by (simp add: unit_index_less_iff sizes_def)
  from a formatBytes_pos[of bytes] obtain digits where
    "formatBytes bytes = digits @ '' '' @ sizes_at (unit_index (nat bytes))" by auto
  then have "suffix ('' '' @ sizes_at (unit_index (nat bytes))) (formatBytes bytes)"
    by (simp add: suffix_def)
  with sizes_at_in_range[OF i]
  show "\<exists>u \<in> set sizes. suffix ('' '' @ u) (formatBytes bytes)" by blast
next
  assume a: "1024 ^ 4 \<le> bytes"
  then have n: "0 < nat bytes" "\<not> nat bytes < 1024 ^ 4"
    by (simp_all add: nat_less_iff)
  then show i: "length sizes \<le> unit_index (nat bytes)"
    using unit_index_less_iff[of "nat bytes" 4] by (simp add: sizes_def)
  from a formatBytes_pos[of bytes] obtain digits where
    "formatBytes bytes = digits @ '' '' @ sizes_at (unit_index (nat bytes))" by auto
  then show "suffix '' undefined'' (formatBytes bytes)"
    by (simp add: suffix_def sizes_at_out_of_range[OF i])
qed

theorem formatBytes_units_witness:
  "unit_index (nat 1536) < length sizes
   \<and> (\<exists>u \<in> set sizes. suffix ('' '' @ u) (formatBytes 1536))
   \<and> length sizes \<le> unit_index (nat (1024 ^ 4))
   \<and> suffix '' undefined'' (formatBytes (1024 ^ 4))"
proof -
  have h1: "(1::int) \<le> 1536 \<and> (1536::int) < 1024 ^ 4" by simp
  have h2: "(1024::int) ^ 4 \<le> 1024 ^ 4" by simp
  from formatBytes_units[of 1536] h1 formatBytes_units[of "1024 ^ 4"] h2
  show ?thesis by blast
qed

end
